theory Spec2Isabelle
  imports Complex_Main "HOL-Library.AList"
begin

section \<open>Python values and errors\<close>

text \<open>
  The engine is \<^verbatim>\<open>AffirmativeActionService\<close> of
  \<^verbatim>\<open>backend/services/affirmative_action_service.py\<close>. Python dictionaries are
  association lists in insertion order with distinct keys: \<open>map_of\<close> reads a key,
  \<open>AList.update\<close> is the assignment \<^verbatim>\<open>d[k] = v\<close> (in place for a key that is
  there, appended otherwise). A score or a percentage is a rational number, and the products and
  sums of the scoring and planning code are exact; the tolerance test of
  \<^verbatim>\<open>update_quotas\<close>, which the last bit of a float can decide, is modelled in
  IEEE 754 double precision. An exception is the \<open>Inl\<close> of a sum.
\<close>

datatype error = ValueError | KeyError | AttributeError | ZeroDivisionError

type_synonym ('k, 'v) dict = "('k \<times> 'v) list"

definition dict_update :: "('k, 'v) dict \<Rightarrow> ('k, 'v) dict \<Rightarrow> ('k, 'v) dict" where
  \<comment> \<open>\<^verbatim>\<open>d.update(other)\<close>: every item of \<open>other\<close> is assigned in turn.\<close>
  "dict_update d other = fold (\<lambda>kv acc. AList.update (fst kv) (snd kv) acc) other d"

definition py_int :: "rat \<Rightarrow> int" where
  \<comment> \<open>\<^verbatim>\<open>int(x)\<close> on a float truncates towards zero.\<close>
  "py_int x = (if 0 \<le> x then \<lfloor>x\<rfloor> else \<lceil>x\<rceil>)"

section \<open>Double-precision floats\<close>

text \<open>
  A Python float is an IEEE 754 binary64 number: a finite value, which is a rational with a
  significand of 53 bits and a binary exponent from -1022 to 1023 (below that the values are
  subnormal, multiples of 2 to the power -1074), an infinity or a NaN. The two zeros are not
  told apart. An operation returns its exact result rounded to the nearest float, a tie going
  to the even significand, and returns an infinity when the rounded value reaches 2 to the
  power 1024.
\<close>

datatype pyfloat = Finite rat | PosInf | NegInf | NaN

definition pow2 :: "int \<Rightarrow> rat" where
  "pow2 e = (if 0 \<le> e then 2 ^ nat e else 1 / 2 ^ nat (- e))"

function bit_length :: "int \<Rightarrow> int" where
  \<comment> \<open>The number of binary digits of a positive integer.\<close>
  "bit_length n = (if n \<le> 0 then 0 else 1 + bit_length (n div 2))"
  by pat_completeness auto
termination
  by (relation "measure nat") auto

declare bit_length.simps [simp del]

definition binary_exponent :: "rat \<Rightarrow> int" where
  \<comment> \<open>For positive \<open>x\<close>, the exponent \<open>e\<close> with \<open>pow2 e \<le> x < pow2 (e + 1)\<close>. From 1
      on it is read off the integer part; below 1, off the integer part of the reciprocal.\<close>
  "binary_exponent x =
     (if 1 \<le> x then bit_length \<lfloor>x\<rfloor> - 1
      else if x * pow2 (bit_length \<lfloor>1 / x\<rfloor> - 1) = 1 then 1 - bit_length \<lfloor>1 / x\<rfloor>
      else - bit_length \<lfloor>1 / x\<rfloor>)"

definition round_half_even :: "rat \<Rightarrow> int" where
  "round_half_even m =
     (if m - of_int \<lfloor>m\<rfloor> < 1 / 2 then \<lfloor>m\<rfloor>
      else if 1 / 2 < m - of_int \<lfloor>m\<rfloor> then \<lfloor>m\<rfloor> + 1
      else if even \<lfloor>m\<rfloor> then \<lfloor>m\<rfloor>
      else \<lfloor>m\<rfloor> + 1)"

definition round_to_precision :: "rat \<Rightarrow> rat" where
  \<comment> \<open>A positive value rounded to a multiple of its quantum, which is 52 binary places below
      its exponent and never below the subnormal quantum.\<close>
  "round_to_precision a =
     of_int (round_half_even (a / pow2 (max (binary_exponent a) (- 1022) - 52))) *
       pow2 (max (binary_exponent a) (- 1022) - 52)"

definition to_double :: "rat \<Rightarrow> pyfloat" where
  \<comment> \<open>The float nearest to a rational: the value of a float literal, and the rounding step of
      every arithmetic operation.\<close>
  "to_double x =
     (if x = 0 then Finite 0
      else if pow2 1024 \<le> round_to_precision \<bar>x\<bar> then (if 0 < x then PosInf else NegInf)
      else Finite (if 0 < x then round_to_precision \<bar>x\<bar> else - round_to_precision \<bar>x\<bar>))"

fun fl_neg :: "pyfloat \<Rightarrow> pyfloat" where
  "fl_neg (Finite r) = Finite (- r)"
| "fl_neg PosInf = NegInf"
| "fl_neg NegInf = PosInf"
| "fl_neg NaN = NaN"

fun fl_add :: "pyfloat \<Rightarrow> pyfloat \<Rightarrow> pyfloat" where
  "fl_add (Finite a) (Finite b) = to_double (a + b)"
| "fl_add NaN y = NaN"
| "fl_add x NaN = NaN"
| "fl_add PosInf NegInf = NaN"
| "fl_add NegInf PosInf = NaN"
| "fl_add PosInf y = PosInf"
| "fl_add x PosInf = PosInf"
| "fl_add NegInf y = NegInf"
| "fl_add x NegInf = NegInf"

definition fl_sub :: "pyfloat \<Rightarrow> pyfloat \<Rightarrow> pyfloat" where
  "fl_sub x y = fl_add x (fl_neg y)"

fun fl_abs :: "pyfloat \<Rightarrow> pyfloat" where
  "fl_abs (Finite r) = Finite \<bar>r\<bar>"
| "fl_abs PosInf = PosInf"
| "fl_abs NegInf = PosInf"
| "fl_abs NaN = NaN"

fun fl_gt :: "pyfloat \<Rightarrow> pyfloat \<Rightarrow> bool" where
  \<comment> \<open>\<^verbatim>\<open>x > y\<close>: false whenever a NaN is compared.\<close>
  "fl_gt (Finite a) (Finite b) = (b < a)"
| "fl_gt NaN y = False"
| "fl_gt x NaN = False"
| "fl_gt x PosInf = False"
| "fl_gt NegInf y = False"
| "fl_gt PosInf y = True"
| "fl_gt x NegInf = True"

definition fl_le :: "pyfloat \<Rightarrow> pyfloat \<Rightarrow> bool" where
  \<comment> \<open>\<^verbatim>\<open>x <= y\<close>: false whenever a NaN is compared.\<close>
  "fl_le x y = (x \<noteq> NaN \<and> y \<noteq> NaN \<and> \<not> fl_gt x y)"

definition py_sum :: "pyfloat list \<Rightarrow> pyfloat" where
  \<comment> \<open>\<^verbatim>\<open>sum(values)\<close> as CPython computes it up to version 3.11: from 0, left to right,
      each addition rounded.\<close>
  "py_sum xs = foldl fl_add (Finite 0) xs"

section \<open>The service and its configuration\<close>

record service =
  quotas :: "(string, rat) dict"
  rural_quota_percentage :: rat
  diversity_boost :: "(string, rat) dict"

definition init_service :: service where
  \<comment> \<open>\<^verbatim>\<open>__init__\<close>\<close>
  "init_service = \<lparr>
     quotas = [(''general'', 475 / 1000), (''sc'', 15 / 100), (''st'', 75 / 1000),
               (''obc'', 27 / 100), (''ews'', 10 / 100)],
     rural_quota_percentage = 30 / 100,
     diversity_boost = [(''rural'', 5 / 100), (''female'', 3 / 100), (''pwd'', 5 / 100),
                        (''first_generation'', 4 / 100)] \<rparr>"

definition tolerance_exceeded :: "pyfloat \<Rightarrow> bool" where
  \<comment> \<open>\<^verbatim>\<open>abs(total_quota - 1.0) > 0.01\<close>\<close>
  "tolerance_exceeded total_quota =
     fl_gt (fl_abs (fl_sub total_quota (Finite 1))) (to_double (1 / 100))"

definition within_tolerance :: "pyfloat \<Rightarrow> bool" where
  \<comment> \<open>\<^verbatim>\<open>abs(total_quota - 1.0) <= 0.01\<close>\<close>
  "within_tolerance total_quota =
     fl_le (fl_abs (fl_sub total_quota (Finite 1))) (to_double (1 / 100))"

definition update_quotas_with ::
  "(pyfloat list \<Rightarrow> pyfloat) \<Rightarrow> service \<Rightarrow> (string, rat) dict \<Rightarrow> error option \<times> service" where
  \<comment> \<open>\<^verbatim>\<open>update_quotas\<close>, with the interpreter's \<^verbatim>\<open>sum\<close> as a parameter. A
      percentage of the table is the rational its float is written as, and \<open>to_double\<close> of it
      is the float. Returns the exception raised, if any, and the service as the call leaves
      it.\<close>
  "update_quotas_with builtin_sum self new_quotas =
     (let total_quota = builtin_sum (map (\<lambda>kv. to_double (snd kv)) new_quotas) in
      if tolerance_exceeded total_quota then (Some ValueError, self)
      else (None, self\<lparr>quotas := dict_update (quotas self) new_quotas\<rparr>))"

definition update_quotas :: "service \<Rightarrow> (string, rat) dict \<Rightarrow> error option \<times> service" where
  "update_quotas = update_quotas_with py_sum"

definition update_diversity_boosts :: "service \<Rightarrow> (string, rat) dict \<Rightarrow> service" where
  "update_diversity_boosts self new_boosts =
     self\<lparr>diversity_boost := dict_update (diversity_boost self) new_boosts\<rparr>"

section \<open>Quota planning\<close>

definition first_pass_slots :: "(string, rat) dict \<Rightarrow> int \<Rightarrow> (string, int) dict" where
  \<comment> \<open>The first loop of \<^verbatim>\<open>_calculate_quota_slots\<close>.\<close>
  "first_pass_slots qs total_capacity =
     fold (\<lambda>kv acc. AList.update (fst kv) (max 1 (py_int (of_int total_capacity * snd kv))) acc) qs []"

definition reduce_slots :: "(string, int) dict \<Rightarrow> rat \<Rightarrow> (string, int) dict" where
  \<comment> \<open>The second loop: every value is replaced in place.\<close>
  "reduce_slots quota_slots reduction_factor =
     map (\<lambda>kv. (fst kv, max 1 (py_int (of_int (snd kv) * reduction_factor)))) quota_slots"

definition calculate_quota_slots :: "service \<Rightarrow> int \<Rightarrow> error + (string, int) dict" where
  "calculate_quota_slots self total_capacity =
     (let quota_slots = first_pass_slots (quotas self) total_capacity;
          total_allocated = sum_list (map snd quota_slots) in
      if total_allocated > total_capacity then
        (if total_allocated = 0 then Inl ZeroDivisionError
         else Inr (reduce_slots quota_slots (of_int total_capacity / of_int total_allocated)))
      else Inr quota_slots)"

section \<open>Match records and the diversity booster\<close>

text \<open>
  A match is a Python dictionary; the record has the keys the service reads. A key read with
  \<^verbatim>\<open>get(key)\<close> is an option (\<open>None\<close> when the key is absent); a key read with
  \<^verbatim>\<open>get(key, default)\<close> whose absence the code cannot tell from the default holds the
  default. The keys \<^verbatim>\<open>analysis\<close>, \<^verbatim>\<open>strengths\<close> and
  \<^verbatim>\<open>recommendations\<close>, copied unread into the allocation record, and the clock
  reading \<^verbatim>\<open>timestamp\<close> are left out.
\<close>

record match =
  m_candidate_id :: "string option"
  m_candidate_name :: "string option"
  m_internship_id :: "string option"
  m_internship_title :: "string option"
  m_score :: "rat option"
  m_social_category :: string
  m_location :: string
  m_rural_background :: bool
  m_gender :: string
  m_pwd_status :: bool
  m_disability :: bool
  m_first_generation_learner :: bool
  m_original_score :: "rat option"
  m_boosted_score :: "rat option"
  m_diversity_boost :: "rat option"
  m_boost_reasons :: "string list option"

definition score_of :: "match \<Rightarrow> rat" where
  \<comment> \<open>\<^verbatim>\<open>match.get('score', 0)\<close>\<close>
  "score_of m = (case m_score m of None \<Rightarrow> 0 | Some s \<Rightarrow> s)"

definition lower_char :: "char \<Rightarrow> char" where
  \<comment> \<open>\<^verbatim>\<open>A\<close> to \<^verbatim>\<open>Z\<close> (65 to 90) have bit 5 clear; setting it adds 32.\<close>
  "lower_char c =
     (if 65 \<le> (of_char c :: nat) \<and> (of_char c :: nat) \<le> 90
      then (case c of Char b0 b1 b2 b3 b4 b5 b6 b7 \<Rightarrow> Char b0 b1 b2 b3 b4 True b6 b7)
      else c)"

definition lower :: "string \<Rightarrow> string" where
  \<comment> \<open>\<^verbatim>\<open>str.lower()\<close> on ASCII text.\<close>
  "lower s = map lower_char s"

fun starts_with :: "string \<Rightarrow> string \<Rightarrow> bool" where
  "starts_with [] s = True"
| "starts_with (p # ps) [] = False"
| "starts_with (p # ps) (c # cs) = (p = c \<and> starts_with ps cs)"

fun contains :: "string \<Rightarrow> string \<Rightarrow> bool" where
  \<comment> \<open>\<^verbatim>\<open>p in s\<close> on strings.\<close>
  "contains p [] = (p = [])"
| "contains p (c # cs) = (starts_with p (c # cs) \<or> contains p cs)"

definition rural_indicators :: "string list" where
  "rural_indicators = [''village'', ''rural'', ''gram'', ''tehsil'', ''block'', ''mandal'',
                       ''panchayat'', ''agricultural'', ''farming'']"

definition is_rural_candidate :: "match \<Rightarrow> bool" where
  "is_rural_candidate m = list_ex (\<lambda>indicator. contains indicator (lower (m_location m))) rural_indicators"

definition is_female_candidate :: "match \<Rightarrow> bool" where
  "is_female_candidate m = (lower (m_gender m) = ''female'')"

definition is_pwd_candidate :: "match \<Rightarrow> bool" where
  "is_pwd_candidate m = (m_pwd_status m \<or> m_disability m)"

definition is_first_generation_candidate :: "match \<Rightarrow> bool" where
  "is_first_generation_candidate m = m_first_generation_learner m"

definition lookup :: "('k, 'v) dict \<Rightarrow> 'k \<Rightarrow> error + 'v" where
  \<comment> \<open>\<^verbatim>\<open>d[k]\<close>\<close>
  "lookup d k = (case map_of d k of None \<Rightarrow> Inl KeyError | Some v \<Rightarrow> Inr v)"

definition add_boost :: "service \<Rightarrow> bool \<Rightarrow> string \<Rightarrow> string \<Rightarrow> error + rat \<times> string list
                          \<Rightarrow> error + rat \<times> string list" where
  \<comment> \<open>One of the four \<^verbatim>\<open>if\<close> blocks: the weight is read only when the check holds.\<close>
  "add_boost self applies key reason acc =
     (case acc of
        Inl e \<Rightarrow> Inl e
      | Inr (boost_factor, boost_reasons) \<Rightarrow>
          if applies then
            (case lookup (diversity_boost self) key of
               Inl e \<Rightarrow> Inl e
             | Inr w \<Rightarrow> Inr (boost_factor + w, boost_reasons @ [reason]))
          else Inr (boost_factor, boost_reasons))"

definition boost_match :: "service \<Rightarrow> match \<Rightarrow> error + match" where
  \<comment> \<open>The body of the loop of \<^verbatim>\<open>_apply_diversity_boosts\<close>.\<close>
  "boost_match self m =
     (let original_score = score_of m in
      case add_boost self (is_first_generation_candidate m) ''first_generation'' ''First-generation learner''
            (add_boost self (is_pwd_candidate m) ''pwd'' ''Person with disability''
              (add_boost self (is_female_candidate m) ''female'' ''Gender diversity''
                (add_boost self (m_rural_background m \<or> is_rural_candidate m) ''rural'' ''Rural background''
                  (Inr (0, []))))) of
        Inl e \<Rightarrow> Inl e
      | Inr (boost_factor, boost_reasons) \<Rightarrow>
          (let boosted_score = min (original_score + boost_factor) 1 in
           Inr (m\<lparr>m_original_score := Some original_score,
                   m_boosted_score := Some boosted_score,
                   m_score := Some boosted_score,
                   m_diversity_boost := Some boost_factor,
                   m_boost_reasons := Some boost_reasons\<rparr>)))"

fun boost_all :: "service \<Rightarrow> match list \<Rightarrow> error + match list" where
  "boost_all self [] = Inr []"
| "boost_all self (m # ms) =
     (case boost_match self m of
        Inl e \<Rightarrow> Inl e
      | Inr b \<Rightarrow> (case boost_all self ms of Inl e \<Rightarrow> Inl e | Inr bs \<Rightarrow> Inr (b # bs)))"

definition sort_by_score_desc :: "match list \<Rightarrow> match list" where
  \<comment> \<open>\<^verbatim>\<open>sort(key=lambda x: x.get('score', 0), reverse=True)\<close>: stable, highest first.\<close>
  "sort_by_score_desc ms = sort_key (\<lambda>x. - score_of x) ms"

definition apply_diversity_boosts :: "service \<Rightarrow> match list \<Rightarrow> error + match list" where
  "apply_diversity_boosts self matches =
     (case boost_all self matches of
        Inl e \<Rightarrow> Inl e
      | Inr boosted_matches \<Rightarrow> Inr (sort_by_score_desc boosted_matches))"

section \<open>The allocation engine\<close>

record internship =
  i_id :: "string option"
  i_capacity :: "int option"

definition capacity_of :: "internship \<Rightarrow> int" where
  \<comment> \<open>\<^verbatim>\<open>internship.get('capacity', 1)\<close>\<close>
  "capacity_of i = (case i_capacity i of None \<Rightarrow> 1 | Some c \<Rightarrow> c)"

record allocation =
  a_candidate_id :: "string option"
  a_candidate_name :: "string option"
  a_internship_id :: "string option"
  a_internship_title :: "string option"
  a_original_score :: rat
  a_final_score :: rat
  a_category :: string
  a_allocation_type :: string
  a_diversity_boost :: rat
  a_boost_reasons :: "string list"
  a_rural_background :: bool

definition create_allocation_record :: "match \<Rightarrow> string \<Rightarrow> string \<Rightarrow> allocation" where
  "create_allocation_record m category allocation_type = \<lparr>
     a_candidate_id = m_candidate_id m,
     a_candidate_name = m_candidate_name m,
     a_internship_id = m_internship_id m,
     a_internship_title = m_internship_title m,
     a_original_score = (case m_original_score m of None \<Rightarrow> score_of m | Some s \<Rightarrow> s),
     a_final_score = score_of m,
     a_category = category,
     a_allocation_type = allocation_type,
     a_diversity_boost = (case m_diversity_boost m of None \<Rightarrow> 0 | Some b \<Rightarrow> b),
     a_boost_reasons = (case m_boost_reasons m of None \<Rightarrow> [] | Some r \<Rightarrow> r),
     a_rural_background = m_rural_background m \<rparr>"

definition get_candidate_category :: "match \<Rightarrow> string" where
  "get_candidate_category m =
     (let social_category = lower (m_social_category m) in
      if social_category \<in> set [''sc'', ''scheduled caste''] then ''sc''
      else if social_category \<in> set [''st'', ''scheduled tribe''] then ''st''
      else if social_category \<in> set [''obc'', ''other backward class''] then ''obc''
      else if social_category \<in> set [''ews'', ''economically weaker section''] then ''ews''
      else ''general'')"

fun get_internship_capacity :: "string option \<Rightarrow> internship list \<Rightarrow> int" where
  "get_internship_capacity internship_id [] = 1"
| "get_internship_capacity internship_id (i # is) =
     (if i_id i = internship_id then capacity_of i else get_internship_capacity internship_id is)"

record alloc_state =
  final_allocations :: "allocation list"
  quota_filled :: "(string, int) dict"
  internship_capacity_used :: "(string option, int) dict"
  allocated_candidates :: "string option set"

definition used_get :: "alloc_state \<Rightarrow> string option \<Rightarrow> int" where
  \<comment> \<open>\<^verbatim>\<open>internship_capacity_used.get(internship_id, 0)\<close>\<close>
  "used_get st k = (case map_of (internship_capacity_used st) k of None \<Rightarrow> 0 | Some u \<Rightarrow> u)"

definition skipped :: "internship list \<Rightarrow> alloc_state \<Rightarrow> match \<Rightarrow> bool" where
  \<comment> \<open>The test both phases make first: candidate already allocated, or internship full.\<close>
  "skipped internships st m =
     (m_candidate_id m \<in> allocated_candidates st \<or>
      used_get st (m_internship_id m) \<ge> get_internship_capacity (m_internship_id m) internships)"

definition record_allocation ::
  "alloc_state \<Rightarrow> match \<Rightarrow> string \<Rightarrow> string \<Rightarrow> (string, int) dict \<Rightarrow> error + alloc_state" where
  \<comment> \<open>Append the record, add the candidate, store the quota counters, and count the seat:
      \<^verbatim>\<open>internship_capacity_used[internship_id] += 1\<close> raises on an untracked id.\<close>
  "record_allocation st m category allocation_type quota_filled' =
     (case lookup (internship_capacity_used st) (m_internship_id m) of
        Inl e \<Rightarrow> Inl e
      | Inr u \<Rightarrow> Inr (st\<lparr>
          final_allocations := final_allocations st @ [create_allocation_record m category allocation_type],
          quota_filled := quota_filled',
          internship_capacity_used := AList.update (m_internship_id m) (u + 1) (internship_capacity_used st),
          allocated_candidates := insert (m_candidate_id m) (allocated_candidates st)\<rparr>))"

fun phase1_scan :: "internship list \<Rightarrow> string \<Rightarrow> int \<Rightarrow> match list \<Rightarrow> alloc_state \<Rightarrow> error + alloc_state" where
  "phase1_scan internships category quota_limit [] st = Inr st"
| "phase1_scan internships category quota_limit (m # ms) st =
     (case lookup (quota_filled st) category of
        Inl e \<Rightarrow> Inl e
      | Inr filled \<Rightarrow>
          if filled \<ge> quota_limit then Inr st
          else if skipped internships st m then phase1_scan internships category quota_limit ms st
          else if get_candidate_category m = category then
            (case record_allocation st m category ''quota''
                    (AList.update category (filled + 1) (quota_filled st)) of
               Inl e \<Rightarrow> Inl e
             | Inr st' \<Rightarrow> phase1_scan internships category quota_limit ms st')
          else phase1_scan internships category quota_limit ms st)"

fun phase1 :: "internship list \<Rightarrow> (string, int) dict \<Rightarrow> match list \<Rightarrow> string list \<Rightarrow> alloc_state
                \<Rightarrow> error + alloc_state" where
  "phase1 internships quota_slots matches [] st = Inr st"
| "phase1 internships quota_slots matches (category # categories) st =
     (case phase1_scan internships category
             (case map_of quota_slots category of None \<Rightarrow> 0 | Some l \<Rightarrow> l) matches st of
        Inl e \<Rightarrow> Inl e
      | Inr st' \<Rightarrow> phase1 internships quota_slots matches categories st')"

fun fill_reserved :: "(string, int) dict \<Rightarrow> (string, int) dict \<Rightarrow> string list
                      \<Rightarrow> error + (string, int) dict option" where
  \<comment> \<open>The inner \<^verbatim>\<open>for\<close> of Phase 2: the first category with an unfilled slot takes the
      candidate; \<open>None\<close> when the loop ends without a \<^verbatim>\<open>break\<close>.\<close>
  "fill_reserved filled quota_slots [] = Inr None"
| "fill_reserved filled quota_slots (category # categories) =
     (case lookup filled category of
        Inl e \<Rightarrow> Inl e
      | Inr f \<Rightarrow>
          (case lookup quota_slots category of
             Inl e \<Rightarrow> Inl e
           | Inr s \<Rightarrow>
               if f < s then Inr (Some (AList.update category (f + 1) filled))
               else fill_reserved filled quota_slots categories))"

definition reserved_categories :: "string list" where
  "reserved_categories = [''sc'', ''st'', ''obc'', ''ews'']"

definition take_general :: "(string, int) dict \<Rightarrow> int \<Rightarrow> string \<Rightarrow> error + ((string, int) dict \<times> string) option" where
  \<comment> \<open>\<^verbatim>\<open>if quota_filled['general'] < general_quota\<close>: count the seat under the given type.\<close>
  "take_general filled general_quota allocation_type =
     (case lookup filled ''general'' of
        Inl e \<Rightarrow> Inl e
      | Inr g \<Rightarrow>
          if g < general_quota then Inr (Some (AList.update ''general'' (g + 1) filled, allocation_type))
          else Inr None)"

definition phase2_decide :: "(string, int) dict \<Rightarrow> (string, int) dict \<Rightarrow> int \<Rightarrow> string
                             \<Rightarrow> error + ((string, int) dict \<times> string) option" where
  \<comment> \<open>The \<^verbatim>\<open>if\<close>/\<^verbatim>\<open>elif\<close> of Phase 2: the new counters and the allocation
      type, or \<open>None\<close> when \<^verbatim>\<open>allocated\<close> stays false.\<close>
  "phase2_decide filled quota_slots general_quota candidate_category =
     (case (if candidate_category = ''general'' then take_general filled general_quota ''general''
            else Inr None) of
        Inl e \<Rightarrow> Inl e
      | Inr (Some r) \<Rightarrow> Inr (Some r)
      | Inr None \<Rightarrow>
          (case fill_reserved filled quota_slots reserved_categories of
             Inl e \<Rightarrow> Inl e
           | Inr (Some filled') \<Rightarrow> Inr (Some (filled', ''merit_in_quota''))
           | Inr None \<Rightarrow> take_general filled general_quota ''merit''))"

fun phase2 :: "internship list \<Rightarrow> (string, int) dict \<Rightarrow> int \<Rightarrow> match list \<Rightarrow> alloc_state
                \<Rightarrow> error + alloc_state" where
  "phase2 internships quota_slots general_quota [] st = Inr st"
| "phase2 internships quota_slots general_quota (m # ms) st =
     (if skipped internships st m then phase2 internships quota_slots general_quota ms st
      else
        (case phase2_decide (quota_filled st) quota_slots general_quota (get_candidate_category m) of
           Inl e \<Rightarrow> Inl e
         | Inr None \<Rightarrow> phase2 internships quota_slots general_quota ms st
         | Inr (Some (filled', allocation_type)) \<Rightarrow>
             (case record_allocation st m (get_candidate_category m) allocation_type filled' of
                Inl e \<Rightarrow> Inl e
              | Inr st' \<Rightarrow> phase2 internships quota_slots general_quota ms st')))"

record summary =
  total_allocated :: int
  total_capacity :: int
  s_quota_slots :: "(string, int) dict"
  capacity_utilization :: "(string option, int) dict"

record alloc_result =
  r_final_allocations :: "allocation list"
  r_quota_fulfillment :: "(string, int) dict"
  r_summary :: summary

definition init_state :: "service \<Rightarrow> internship list \<Rightarrow> alloc_state" where
  \<comment> \<open>The tracking variables as \<^verbatim>\<open>_allocate_with_quotas\<close> sets them up.\<close>
  "init_state self internships = \<lparr>
     final_allocations = [],
     quota_filled = fold (\<lambda>category acc. AList.update category 0 acc) (map fst (quotas self)) [],
     internship_capacity_used = fold (\<lambda>i acc. AList.update (i_id i) 0 acc) internships [],
     allocated_candidates = {} \<rparr>"

definition allocate_with_quotas ::
  "service \<Rightarrow> match list \<Rightarrow> (string, match list) dict \<Rightarrow> (string, int) dict \<Rightarrow> internship list
     \<Rightarrow> error + alloc_result" where
  "allocate_with_quotas self matches internship_matches quota_slots internships =
     (case phase1 internships quota_slots matches reserved_categories (init_state self internships) of
        Inl e \<Rightarrow> Inl e
      | Inr st1 \<Rightarrow>
          (case phase2 internships quota_slots
                  (case map_of quota_slots ''general'' of None \<Rightarrow> 0 | Some g \<Rightarrow> g) matches st1 of
             Inl e \<Rightarrow> Inl e
           | Inr st2 \<Rightarrow> Inr \<lparr>
               r_final_allocations = final_allocations st2,
               r_quota_fulfillment = quota_filled st2,
               r_summary = \<lparr>
                 total_allocated = int (length (final_allocations st2)),
                 total_capacity = sum_list (map snd (internship_capacity_used st2)),
                 s_quota_slots = quota_slots,
                 capacity_utilization = internship_capacity_used st2 \<rparr> \<rparr>))"

section \<open>Reporting and the entry point\<close>

definition group_matches_by_internship :: "match list \<Rightarrow> (string, match list) dict" where
  \<comment> \<open>A match whose internship id is absent or empty is left out; each group is then sorted.\<close>
  "group_matches_by_internship matches =
     map (\<lambda>kv. (fst kv, sort_by_score_desc (snd kv)))
       (fold (\<lambda>m acc.
                case m_internship_id m of
                  None \<Rightarrow> acc
                | Some internship_id \<Rightarrow>
                    if internship_id = [] then acc
                    else AList.update internship_id
                           ((case map_of acc internship_id of None \<Rightarrow> [] | Some l \<Rightarrow> l) @ [m]) acc)
             matches [])"

definition count_by :: "('a \<Rightarrow> string) \<Rightarrow> 'a list \<Rightarrow> (string, int) dict" where
  \<comment> \<open>Counting into a \<^verbatim>\<open>defaultdict(int)\<close>.\<close>
  "count_by f xs =
     fold (\<lambda>x acc. AList.update (f x) ((case map_of acc (f x) of None \<Rightarrow> 0 | Some n \<Rightarrow> n) + 1) acc) xs []"

record compliance =
  expected_percentage :: rat
  actual_percentage :: rat
  expected_count :: int
  actual_count :: int
  compliant :: bool

definition check_quota_compliance :: "service \<Rightarrow> (string, int) dict \<Rightarrow> int \<Rightarrow> (string, compliance) dict" where
  "check_quota_compliance self breakdown total_count =
     map (\<lambda>kv.
            let actual = (case map_of breakdown (fst kv) of None \<Rightarrow> 0 | Some n \<Rightarrow> n);
                expected = py_int (of_int total_count * snd kv)
            in (fst kv, \<lparr>
                  expected_percentage = snd kv * 100,
                  actual_percentage = (if total_count > 0 then of_int actual / of_int total_count * 100 else 0),
                  expected_count = expected,
                  actual_count = actual,
                  compliant = (of_int actual \<ge> of_int expected * (9 / 10 :: rat)) \<rparr>))
         (quotas self)"

record diversity_report =
  dr_total_allocated :: int
  category_breakdown :: "(string, int) dict"
  category_percentages :: "(string, rat) dict"
  allocation_type_breakdown :: "(string, int) dict"
  rural_count :: int
  rural_percentage :: rat
  boosted_count :: int
  boosted_percentage :: rat
  quota_compliance :: "(string, compliance) dict"

datatype report = NoAllocations | Report diversity_report

text \<open>
  \<^verbatim>\<open>_generate_diversity_report\<close> is written for a list of allocation records, and
  \<^verbatim>\<open>apply_affirmative_action\<close> hands it the dictionary that
  \<^verbatim>\<open>_allocate_with_quotas\<close> returns. That dictionary has three keys, so it is
  not falsy; the loop then runs over its keys, which are strings, and the first
  \<^verbatim>\<open>allocation.get(...)\<close> raises \<^verbatim>\<open>AttributeError\<close>.
\<close>

datatype report_argument = AllocationList "allocation list" | AllocationDict alloc_result

fun generate_diversity_report :: "service \<Rightarrow> report_argument \<Rightarrow> error + report" where
  "generate_diversity_report self (AllocationDict r) = Inl AttributeError"
| "generate_diversity_report self (AllocationList []) = Inr NoAllocations"
| "generate_diversity_report self (AllocationList (a # as)) =
     (let allocations = a # as;
          total_count = int (length allocations);
          breakdown = count_by a_category allocations;
          rural = int (length (filter a_rural_background allocations));
          boosted = int (length (filter (\<lambda>x. a_diversity_boost x > 0) allocations))
      in Inr (Report \<lparr>
           dr_total_allocated = total_count,
           category_breakdown = breakdown,
           category_percentages = map (\<lambda>kv. (fst kv, of_int (snd kv) / of_int total_count * 100)) breakdown,
           allocation_type_breakdown = count_by a_allocation_type allocations,
           rural_count = rural,
           rural_percentage = of_int rural / of_int total_count * 100,
           boosted_count = boosted,
           boosted_percentage = of_int boosted / of_int total_count * 100,
           quota_compliance = check_quota_compliance self breakdown total_count \<rparr>))"

record action_result =
  ar_final_allocations :: "allocation list"
  ar_quota_fulfillment :: "(string, int) dict"
  ar_diversity_report :: report
  ar_allocation_summary :: summary

definition apply_affirmative_action :: "service \<Rightarrow> match list \<Rightarrow> internship list \<Rightarrow> error + action_result" where
  "apply_affirmative_action self matches internships =
     (let internship_matches = group_matches_by_internship matches;
          total_capacity = sum_list (map capacity_of internships)
      in case calculate_quota_slots self total_capacity of
           Inl e \<Rightarrow> Inl e
         | Inr quota_slots \<Rightarrow>
             (case apply_diversity_boosts self matches of
                Inl e \<Rightarrow> Inl e
              | Inr boosted_matches \<Rightarrow>
                  (case allocate_with_quotas self boosted_matches internship_matches quota_slots internships of
                     Inl e \<Rightarrow> Inl e
                   | Inr allocations \<Rightarrow>
                       (case generate_diversity_report self (AllocationDict allocations) of
                          Inl e \<Rightarrow> Inl e
                        | Inr diversity_report \<Rightarrow> Inr \<lparr>
                            ar_final_allocations = r_final_allocations allocations,
                            ar_quota_fulfillment = r_quota_fulfillment allocations,
                            ar_diversity_report = diversity_report,
                            ar_allocation_summary = r_summary allocations \<rparr>))))"

section \<open>The booster as the specification words it\<close>

text \<open>
  The four indicators in the order the code tests them: the key of the weight in
  \<^verbatim>\<open>self.diversity_boost\<close>, the name recorded in
  \<^verbatim>\<open>boost_reasons\<close>, and the check. These definitions follow the specification:
  the total boost is the sum of the configured weights of the applicable indicators, the
  boosted score is the raw score plus the total boost, clamped at 1.
\<close>

definition indicators :: "(string \<times> string \<times> (match \<Rightarrow> bool)) list" where
  "indicators =
     [(''rural'', ''Rural background'', \<lambda>m. m_rural_background m \<or> is_rural_candidate m),
      (''female'', ''Gender diversity'', is_female_candidate),
      (''pwd'', ''Person with disability'', is_pwd_candidate),
      (''first_generation'', ''First-generation learner'', is_first_generation_candidate)]"

definition applicable :: "match \<Rightarrow> (string \<times> string \<times> (match \<Rightarrow> bool)) list" where
  "applicable m = filter (\<lambda>i. snd (snd i) m) indicators"

definition weight :: "service \<Rightarrow> string \<Rightarrow> rat" where
  "weight self key = (case map_of (diversity_boost self) key of None \<Rightarrow> 0 | Some w \<Rightarrow> w)"

definition total_boost :: "service \<Rightarrow> match \<Rightarrow> rat" where
  "total_boost self m = sum_list (map (\<lambda>i. weight self (fst i)) (applicable m))"

definition applied_reasons :: "match \<Rightarrow> string list" where
  "applied_reasons m = map (\<lambda>i. fst (snd i)) (applicable m)"

definition boosted :: "service \<Rightarrow> match \<Rightarrow> match" where
  "boosted self m = m\<lparr>
     m_original_score := Some (score_of m),
     m_boosted_score := Some (min (score_of m + total_boost self m) 1),
     m_score := Some (min (score_of m + total_boost self m) 1),
     m_diversity_boost := Some (total_boost self m),
     m_boost_reasons := Some (applied_reasons m)\<rparr>"

definition has_boost_keys :: "service \<Rightarrow> bool" where
  \<comment> \<open>The four weights are configured, as they are from \<^verbatim>\<open>__init__\<close> on.\<close>
  "has_boost_keys self = list_all (\<lambda>i. map_of (diversity_boost self) (fst i) \<noteq> None) indicators"

definition sample_match :: match where
  "sample_match = \<lparr>
     m_candidate_id = Some ''c1'', m_candidate_name = None,
     m_internship_id = Some ''i1'', m_internship_title = None,
     m_score = Some (97 / 100), m_social_category = ''SC'',
     m_location = ''Barnala village, Punjab'', m_rural_background = False,
     m_gender = ''Female'', m_pwd_status = False, m_disability = False,
     m_first_generation_learner = False, m_original_score = None, m_boosted_score = None,
     m_diversity_boost = None, m_boost_reasons = None \<rparr>"

section \<open>Salary attractiveness in the two scorers\<close>

text \<open>
  \<^verbatim>\<open>_calculate_real_match_score\<close> of
  \<^verbatim>\<open>backend/services/enhanced_internship_service.py\<close> and
  \<^verbatim>\<open>calculate_match_score\<close> of
  \<^verbatim>\<open>backend/services/internship_scraper_service.py\<close> end in the same weighted sum
  of five component scores. The skills, category and location scores come from text matching and
  are inputs here; the salary component is computed from the internship's
  \<^verbatim>\<open>salary_max\<close> (\<open>None\<close> when the key is absent), differently in each.
  Both functions catch every exception and return a fallback score; with an integer
  \<^verbatim>\<open>salary_max\<close> the salary component raises none.
\<close>

definition real_salary_score :: "int option \<Rightarrow> rat" where
  \<comment> \<open>\<^verbatim>\<open>min(internship.get('salary_max', 15000) / 30000.0, 1.0)\<close>\<close>
  "real_salary_score salary_max =
     min (of_int (case salary_max of None \<Rightarrow> 15000 | Some s \<Rightarrow> s) / 30000) 1"

definition real_experience_score :: "nat \<Rightarrow> rat" where
  \<comment> \<open>\<^verbatim>\<open>min(len(candidate_experience) / 3.0, 1.0) if candidate_experience else 0.5\<close>\<close>
  "real_experience_score n = (if n \<noteq> 0 then min (of_nat n / 3) 1 else 1 / 2)"

definition real_final_score :: "rat \<Rightarrow> rat \<Rightarrow> rat \<Rightarrow> nat \<Rightarrow> int option \<Rightarrow> rat" where
  \<comment> \<open>The weighted sum of \<^verbatim>\<open>_calculate_real_match_score\<close>.\<close>
  "real_final_score skills_score category_score location_score experience_count salary_max =
     skills_score * (40 / 100) +
     category_score * (25 / 100) +
     location_score * (20 / 100) +
     real_experience_score experience_count * (10 / 100) +
     real_salary_score salary_max * (5 / 100)"

definition calculate_salary_attractiveness :: "int option \<Rightarrow> rat" where
  \<comment> \<open>\<^verbatim>\<open>_calculate_salary_attractiveness\<close> of the scraper service.\<close>
  "calculate_salary_attractiveness salary_max_field =
     (let salary_max = (case salary_max_field of None \<Rightarrow> 0 | Some s \<Rightarrow> s) in
      if salary_max \<ge> 40000 then 1
      else if salary_max \<ge> 25000 then 8 / 10
      else if salary_max \<ge> 15000 then 6 / 10
      else if salary_max \<ge> 10000 then 4 / 10
      else 2 / 10)"

definition scraper_final_score :: "rat \<Rightarrow> rat \<Rightarrow> rat \<Rightarrow> rat \<Rightarrow> int option \<Rightarrow> rat" where
  \<comment> \<open>The weighted sum of \<^verbatim>\<open>calculate_match_score\<close>.\<close>
  "scraper_final_score skills_score category_score location_score experience_score salary_max =
     skills_score * (40 / 100) +
     category_score * (25 / 100) +
     location_score * (20 / 100) +
     experience_score * (10 / 100) +
     calculate_salary_attractiveness salary_max * (5 / 100)"

section \<open>Invariants of an allocation run\<close>

definition count_for :: "string option \<Rightarrow> allocation list \<Rightarrow> int" where
  \<comment> \<open>The number of allocation records with the given internship id.\<close>
  "count_for k as = int (length (filter (\<lambda>a. a_internship_id a = k) as))"

definition alloc_inv :: "internship list \<Rightarrow> alloc_state \<Rightarrow> bool" where
  \<comment> \<open>What the tracking variables record about the allocation list.\<close>
  "alloc_inv internships st \<longleftrightarrow>
     distinct (map a_candidate_id (final_allocations st)) \<and>
     a_candidate_id ` set (final_allocations st) \<subseteq> allocated_candidates st \<and>
     (\<forall>k. count_for k (final_allocations st) = used_get st k) \<and>
     (\<forall>k. used_get st k \<le> max 0 (get_internship_capacity k internships)) \<and>
     sum_list (map snd (internship_capacity_used st)) = int (length (final_allocations st))"

definition all_categories :: "string list" where
  "all_categories = ''general'' # reserved_categories"

definition quota_keys_ok :: "service \<Rightarrow> (string, int) dict \<Rightarrow> bool" where
  \<comment> \<open>The five categories are configured, as they are from \<^verbatim>\<open>__init__\<close> on, and
      the plan has a slot count for each reserved category.\<close>
  "quota_keys_ok self quota_slots \<longleftrightarrow>
     list_all (\<lambda>c. map_of (quotas self) c \<noteq> None) all_categories \<and>
     list_all (\<lambda>c. map_of quota_slots c \<noteq> None) reserved_categories"

definition keys_ok :: "internship list \<Rightarrow> alloc_state \<Rightarrow> bool" where
  \<comment> \<open>Every category has a counter and every internship of the input a seat count.\<close>
  "keys_ok internships st \<longleftrightarrow>
     (\<forall>c \<in> set all_categories. map_of (quota_filled st) c \<noteq> None) \<and>
     (\<forall>i \<in> set internships. map_of (internship_capacity_used st) (i_id i) \<noteq> None)"

section \<open>Phase 2 as the specification words it\<close>



section \<open>Sample data\<close>

definition sample_candidate :: "string \<Rightarrow> string \<Rightarrow> rat \<Rightarrow> string \<Rightarrow> match" where
  \<comment> \<open>A boosted match of the given candidate, internship, score and social category.\<close>
  "sample_candidate c i s cat = \<lparr>
     m_candidate_id = Some c, m_candidate_name = None,
     m_internship_id = Some i, m_internship_title = None,
     m_score = Some s, m_social_category = cat,
     m_location = [], m_rural_background = False,
     m_gender = [], m_pwd_status = False, m_disability = False,
     m_first_generation_learner = False, m_original_score = Some s, m_boosted_score = Some s,
     m_diversity_boost = Some 0, m_boost_reasons = Some [] \<rparr>"

definition sample_allocation :: "string \<Rightarrow> string \<Rightarrow> rat \<Rightarrow> string \<Rightarrow> string \<Rightarrow> allocation" where
  "sample_allocation c i s cat ty = \<lparr>
     a_candidate_id = Some c, a_candidate_name = None,
     a_internship_id = Some i, a_internship_title = None,
     a_original_score = s, a_final_score = s, a_category = cat, a_allocation_type = ty,
     a_diversity_boost = 0, a_boost_reasons = [], a_rural_background = False \<rparr>"

definition sample_slots :: "(string, int) dict" where
  "sample_slots = [(''general'', 1), (''sc'', 1), (''st'', 1), (''obc'', 1), (''ews'', 1)]"

definition sample_matches :: "match list" where
  \<comment> \<open>Candidate \<open>a\<close> is matched to both internships.\<close>
  "sample_matches =
     [sample_candidate ''a'' ''i1'' (9 / 10) ''General'',
      sample_candidate ''a'' ''i2'' (85 / 100) ''General'',
      sample_candidate ''b'' ''i1'' (8 / 10) ''SC'',
      sample_candidate ''c'' ''i1'' (7 / 10) ''General'',
      sample_candidate ''d'' ''i2'' (6 / 10) ''obc'']"

definition sample_internships :: "internship list" where
  "sample_internships = [\<lparr>i_id = Some ''i1'', i_capacity = Some 2\<rparr>, \<lparr>i_id = Some ''i2'', i_capacity = None\<rparr>]"

definition sample_result :: alloc_result where
  "sample_result = \<lparr>
     r_final_allocations =
       [sample_allocation ''b'' ''i1'' (8 / 10) ''sc'' ''quota'',
        sample_allocation ''d'' ''i2'' (6 / 10) ''obc'' ''quota'',
        sample_allocation ''a'' ''i1'' (9 / 10) ''general'' ''general''],
     r_quota_fulfillment = [(''general'', 1), (''sc'', 1), (''st'', 0), (''obc'', 1), (''ews'', 0)],
     r_summary = \<lparr>
       total_allocated = 3,
       total_capacity = 3,
       s_quota_slots = sample_slots,
       capacity_utilization = [(Some ''i1'', 2), (Some ''i2'', 1)] \<rparr> \<rparr>"

definition single_match :: "match list" where
  "single_match = [sample_candidate ''a'' ''i1'' (9 / 10) ''General'']"

definition roomy_internship :: "internship list" where
  "roomy_internship = [\<lparr>i_id = Some ''i1'', i_capacity = Some 5\<rparr>]"

definition single_result :: alloc_result where
  "single_result = \<lparr>
     r_final_allocations = [sample_allocation ''a'' ''i1'' (9 / 10) ''general'' ''general''],
     r_quota_fulfillment = [(''general'', 1), (''sc'', 0), (''st'', 0), (''obc'', 0), (''ews'', 0)],
     r_summary = \<lparr>
       total_allocated = 1,
       total_capacity = 1,
       s_quota_slots = sample_slots,
       capacity_utilization = [(Some ''i1'', 1)] \<rparr> \<rparr>"



definition balanced_table :: "(string, rat) dict" where
  \<comment> \<open>Five percentages that sum to 1.\<close>
  "balanced_table = [(''general'', 50 / 100), (''sc'', 15 / 100), (''st'', 5 / 100),
                     (''obc'', 20 / 100), (''ews'', 10 / 100)]"

definition skewed_table :: "(string, rat) dict" where
  "skewed_table = [(''general'', 96 / 100), (''sc'', 1 / 100), (''st'', 1 / 100),
                   (''obc'', 1 / 100), (''ews'', 1 / 100)]"

definition slots_total :: "(string, int) dict \<Rightarrow> int" where
  \<comment> \<open>\<^verbatim>\<open>sum(quota_slots.values())\<close>\<close>
  "slots_total quota_slots = sum_list (map snd quota_slots)"

definition empty_result :: "(string, int) dict \<Rightarrow> (string option, int) dict \<Rightarrow> alloc_result" where
  \<comment> \<open>What a run that allocates nobody returns.\<close>
  "empty_result quota_slots used = \<lparr>
     r_final_allocations = [],
     r_quota_fulfillment = [(''general'', 0), (''sc'', 0), (''st'', 0), (''obc'', 0), (''ews'', 0)],
     r_summary = \<lparr>
       total_allocated = 0,
       total_capacity = 0,
       s_quota_slots = quota_slots,
       capacity_utilization = used \<rparr> \<rparr>"

definition no_seats :: "internship list" where
  "no_seats = [\<lparr>i_id = Some ''i1'', i_capacity = Some 0\<rparr>]"

section \<open>Configuration updates\<close>


lemma floor_numeral_quotient: "\<lfloor>(numeral a :: rat) / numeral b\<rfloor> = numeral a div numeral b"
  using floor_divide_of_int_eq [of "numeral a" "numeral b", where ?'a = rat] by simp

lemmas float_eval = to_double_def round_to_precision_def binary_exponent_def pow2_def
  round_half_even_def bit_length.simps fl_sub_def py_sum_def tolerance_exceeded_def
  within_tolerance_def fl_le_def floor_numeral_quotient




section \<open>Diversity boosts\<close>

lemma boost_match_boosted:
  assumes "has_boost_keys self"
  shows "boost_match self m = Inr (boosted self m)"
proof -
  obtain wr wf wp wg where w:
    "map_of (diversity_boost self) ''rural'' = Some wr"
    "map_of (diversity_boost self) ''female'' = Some wf"
    "map_of (diversity_boost self) ''pwd'' = Some wp"
    "map_of (diversity_boost self) ''first_generation'' = Some wg"
    using assms by (auto simp: has_boost_keys_def indicators_def)
  show ?thesis
    by (simp add: boost_match_def boosted_def add_boost_def lookup_def w total_boost_def
        applied_reasons_def applicable_def indicators_def weight_def Let_def)
qed

lemma boost_all_map:
  "has_boost_keys self \<Longrightarrow> boost_all self ms = Inr (map (boosted self) ms)"
  by (induction ms) (simp_all add: boost_match_boosted)

lemma has_boost_keys_init: "has_boost_keys init_service"
  by (simp add: has_boost_keys_def indicators_def init_service_def del: not_None_eq)

text \<open>
  Claim C5. With the four weights configured, \<^verbatim>\<open>_apply_diversity_boosts\<close> returns
  one record per input match, and every record it returns is an input match \<open>m\<close> with
  \<^verbatim>\<open>original_score\<close> set to its raw score, \<^verbatim>\<open>diversity_boost\<close> set to the
  sum of the configured weights of exactly the indicators that apply to \<open>m\<close>,
  \<^verbatim>\<open>boosted_score\<close> (and \<^verbatim>\<open>score\<close>) set to
  \<open>min (raw score + total boost) 1\<close>, and \<^verbatim>\<open>boost_reasons\<close> set to the names of
  all the applicable indicators, whether or not the clamp cut the sum. The weights configured by
  \<^verbatim>\<open>__init__\<close> are rural 0.05, female 0.03, disability 0.05, first generation 0.04.
  (Scores are exact rationals.)
\<close>

theorem boosted_score_clamped_sum:
  assumes "has_boost_keys self"
  shows "\<exists>bs. apply_diversity_boosts self ms = Inr bs \<and> length bs = length ms \<and>
           (\<forall>b \<in> set bs. \<exists>m \<in> set ms.
              b = boosted self m \<and>
              m_boosted_score b = Some (min (score_of m + total_boost self m) 1) \<and>
              total_boost self m = sum_list (map (\<lambda>i. weight self (fst i)) (filter (\<lambda>i. snd (snd i) m) indicators)) \<and>
              m_boost_reasons b = Some (map (\<lambda>i. fst (snd i)) (filter (\<lambda>i. snd (snd i) m) indicators))) \<and>
           map (weight init_service \<circ> fst) indicators = [5 / 100, 3 / 100, 5 / 100, 4 / 100]"
proof -
  let ?bs = "sort_by_score_desc (map (boosted self) ms)"
  have r: "apply_diversity_boosts self ms = Inr ?bs"
    using assms by (simp add: apply_diversity_boosts_def boost_all_map)
  have s: "set ?bs = boosted self ` set ms"
    by (simp add: sort_by_score_desc_def)
  have f: "m_boosted_score (boosted self m) = Some (min (score_of m + total_boost self m) 1) \<and>
           total_boost self m = sum_list (map (\<lambda>i. weight self (fst i)) (filter (\<lambda>i. snd (snd i) m) indicators)) \<and>
           m_boost_reasons (boosted self m) = Some (map (\<lambda>i. fst (snd i)) (filter (\<lambda>i. snd (snd i) m) indicators))" for m
    by (simp add: boosted_def applied_reasons_def applicable_def total_boost_def)
  have w: "map (weight init_service \<circ> fst) indicators = [5 / 100, 3 / 100, 5 / 100, 4 / 100]"
    by (simp add: weight_def indicators_def init_service_def)
  have l: "length ?bs = length ms"
    by (simp add: sort_by_score_desc_def)
  have a: "\<forall>b \<in> set ?bs. \<exists>m \<in> set ms.
              b = boosted self m \<and>
              m_boosted_score b = Some (min (score_of m + total_boost self m) 1) \<and>
              total_boost self m = sum_list (map (\<lambda>i. weight self (fst i)) (filter (\<lambda>i. snd (snd i) m) indicators)) \<and>
              m_boost_reasons b = Some (map (\<lambda>i. fst (snd i)) (filter (\<lambda>i. snd (snd i) m) indicators))"
  proof
    fix b assume "b \<in> set ?bs"
    then obtain m where m: "m \<in> set ms" "b = boosted self m" using s by auto
    show "\<exists>m \<in> set ms.
              b = boosted self m \<and>
              m_boosted_score b = Some (min (score_of m + total_boost self m) 1) \<and>
              total_boost self m = sum_list (map (\<lambda>i. weight self (fst i)) (filter (\<lambda>i. snd (snd i) m) indicators)) \<and>
              m_boost_reasons b = Some (map (\<lambda>i. fst (snd i)) (filter (\<lambda>i. snd (snd i) m) indicators))"
      using m f [of m] by blast
  qed
  show ?thesis
    unfolding r using l a w by (intro exI [of _ ?bs] conjI) simp_all
qed

theorem boosted_score_clamped_sum_witness:
  "has_boost_keys init_service \<and>
   (\<exists>bs. apply_diversity_boosts init_service [sample_match] = Inr bs \<and> length bs = 1 \<and>
      (\<forall>b \<in> set bs. m_boosted_score b = Some 1 \<and> m_diversity_boost b = Some (8 / 100) \<and>
         m_boost_reasons b = Some [''Rural background'', ''Gender diversity'']))"
proof -
  have e: "boosted init_service sample_match = sample_match\<lparr>
      m_original_score := Some (97 / 100), m_boosted_score := Some 1, m_score := Some 1,
      m_diversity_boost := Some (8 / 100),
      m_boost_reasons := Some [''Rural background'', ''Gender diversity'']\<rparr>"
    by (simp add: boosted_def total_boost_def applied_reasons_def applicable_def indicators_def
        weight_def init_service_def sample_match_def score_of_def is_rural_candidate_def
        rural_indicators_def lower_def lower_char_def is_female_candidate_def is_pwd_candidate_def
        is_first_generation_candidate_def)
  obtain bs where bs: "apply_diversity_boosts init_service [sample_match] = Inr bs"
      "length bs = length [sample_match]"
      "\<forall>b \<in> set bs. \<exists>m \<in> set [sample_match]. b = boosted init_service m"
    using boosted_score_clamped_sum [OF has_boost_keys_init, of "[sample_match]"] by blast
  have "\<forall>b \<in> set bs. m_boosted_score b = Some 1 \<and> m_diversity_boost b = Some (8 / 100) \<and>
         m_boost_reasons b = Some [''Rural background'', ''Gender diversity'']"
  proof
    fix b assume "b \<in> set bs"
    then have "b = boosted init_service sample_match" using bs(3) by simp
    then show "m_boosted_score b = Some 1 \<and> m_diversity_boost b = Some (8 / 100) \<and>
         m_boost_reasons b = Some [''Rural background'', ''Gender diversity'']"
      by (simp add: e)
  qed
  then show ?thesis
    using bs(1,2) has_boost_keys_init by simp
qed

section \<open>Allocation runs\<close>

lemma sum_list_update:
  "map_of al k = Some u \<Longrightarrow> sum_list (map snd (AList.update k v al)) = sum_list (map snd al) - u + (v::int)"
  by (induction al) (auto split: if_splits)

lemma record_allocation_Inr:
  assumes "record_allocation st m category ty qf = Inr st'"
  obtains u where "map_of (internship_capacity_used st) (m_internship_id m) = Some u"
    and "st' = st\<lparr>
          final_allocations := final_allocations st @ [create_allocation_record m category ty],
          quota_filled := qf,
          internship_capacity_used := AList.update (m_internship_id m) (u + 1) (internship_capacity_used st),
          allocated_candidates := insert (m_candidate_id m) (allocated_candidates st)\<rparr>"
  using assms by (auto simp: record_allocation_def lookup_def split: option.splits)

lemma phase1_scan_preserves:
  assumes step: "\<And>s m cat ty qf s'. P s \<Longrightarrow> \<not> skipped internships s m \<Longrightarrow>
                   record_allocation s m cat ty qf = Inr s' \<Longrightarrow> P s'"
  shows "P st \<Longrightarrow> phase1_scan internships c l ms st = Inr st' \<Longrightarrow> P st'"
proof (induction ms arbitrary: st)
  case Nil
  then show ?case by simp
next
  case (Cons m ms)
  from Cons.prems show ?case
    by (auto split: sum.splits if_splits intro: Cons.IH dest: step)
qed

lemma phase1_preserves:
  assumes step: "\<And>s m cat ty qf s'. P s \<Longrightarrow> \<not> skipped internships s m \<Longrightarrow>
                   record_allocation s m cat ty qf = Inr s' \<Longrightarrow> P s'"
  shows "P st \<Longrightarrow> phase1 internships slots ms cs st = Inr st' \<Longrightarrow> P st'"
proof (induction cs arbitrary: st)
  case Nil
  then show ?case by simp
next
  case (Cons c cs)
  from Cons.prems(2) obtain st1 where
    s1: "phase1_scan internships c (case map_of slots c of None \<Rightarrow> 0 | Some l \<Rightarrow> l) ms st = Inr st1"
    and s2: "phase1 internships slots ms cs st1 = Inr st'"
    by (auto split: sum.splits)
  have "P st1" using phase1_scan_preserves [of P, OF step Cons.prems(1) s1] .
  then show ?case using Cons.IH s2 by simp
qed

lemma phase2_preserves:
  assumes step: "\<And>s m cat ty qf s'. P s \<Longrightarrow> \<not> skipped internships s m \<Longrightarrow>
                   record_allocation s m cat ty qf = Inr s' \<Longrightarrow> P s'"
  shows "P st \<Longrightarrow> phase2 internships slots g ms st = Inr st' \<Longrightarrow> P st'"
proof (induction ms arbitrary: st)
  case Nil
  then show ?case by simp
next
  case (Cons m ms)
  show ?case
  proof (cases "skipped internships st m")
    case True
    then show ?thesis using Cons by simp
  next
    case False
    show ?thesis
    proof (cases "phase2_decide (quota_filled st) slots g (get_candidate_category m)")
      case (Inl e)
      then show ?thesis using Cons.prems False by simp
    next
      case (Inr d)
      show ?thesis
      proof (cases d)
        case None
        then show ?thesis using Cons False Inr by simp
      next
        case (Some r)
        obtain qf ty where r: "r = (qf, ty)" by (cases r)
        from Cons.prems(2) False Inr Some r obtain st1 where
          s1: "record_allocation st m (get_candidate_category m) ty qf = Inr st1"
          and s2: "phase2 internships slots g ms st1 = Inr st'"
          by (auto split: sum.splits)
        have "P st1" using step [OF Cons.prems(1) False s1] .
        then show ?thesis using Cons.IH s2 by simp
      qed
    qed
  qed
qed


lemma used_get_Some: "map_of (internship_capacity_used st) k = Some u \<Longrightarrow> used_get st k = u"
  by (simp add: used_get_def)

lemma alloc_inv_step:
  assumes inv: "alloc_inv internships s"
    and ns: "\<not> skipped internships s m"
    and ra: "record_allocation s m cat ty qf = Inr s'"
  shows "alloc_inv internships s'"
proof -
  from ra obtain u where u: "map_of (internship_capacity_used s) (m_internship_id m) = Some u"
    and s': "s' = s\<lparr>
          final_allocations := final_allocations s @ [create_allocation_record m cat ty],
          quota_filled := qf,
          internship_capacity_used := AList.update (m_internship_id m) (u + 1) (internship_capacity_used s),
          allocated_candidates := insert (m_candidate_id m) (allocated_candidates s)\<rparr>"
    by (rule record_allocation_Inr)
  have fresh: "m_candidate_id m \<notin> allocated_candidates s"
    and room: "u < get_internship_capacity (m_internship_id m) internships"
    using ns u by (simp_all add: skipped_def used_get_def)
  have cid: "a_candidate_id (create_allocation_record m cat ty) = m_candidate_id m"
    and iid: "a_internship_id (create_allocation_record m cat ty) = m_internship_id m"
    by (simp_all add: create_allocation_record_def)
  have ug: "used_get s' k = (if k = m_internship_id m then u + 1 else used_get s k)" for k
    by (simp add: s' used_get_def update_conv')
  have d: "distinct (map a_candidate_id (final_allocations s'))"
    using inv fresh by (auto simp: alloc_inv_def s' cid)
  have sub: "a_candidate_id ` set (final_allocations s') \<subseteq> allocated_candidates s'"
    using inv by (auto simp: alloc_inv_def s' cid)
  have cnt: "count_for k (final_allocations s') = used_get s' k" for k
  proof -
    have "count_for k (final_allocations s) = used_get s k"
      using inv by (simp add: alloc_inv_def)
    moreover have "count_for k (final_allocations s') =
        count_for k (final_allocations s) + (if k = m_internship_id m then 1 else 0)"
      by (auto simp: count_for_def s' iid)
    moreover have "used_get s (m_internship_id m) = u"
      using u by (rule used_get_Some)
    ultimately show ?thesis
      by (simp add: ug)
  qed
  have cap: "used_get s' k \<le> max 0 (get_internship_capacity k internships)" for k
  proof -
    have "used_get s k \<le> max 0 (get_internship_capacity k internships)"
      using inv by (simp add: alloc_inv_def)
    then show ?thesis using room by (auto simp: ug)
  qed
  have total: "sum_list (map snd (internship_capacity_used s')) = int (length (final_allocations s'))"
  proof -
    have "sum_list (map snd (internship_capacity_used s)) = int (length (final_allocations s))"
      using inv by (simp add: alloc_inv_def)
    then show ?thesis by (simp add: s' sum_list_update [OF u])
  qed
  show ?thesis
    unfolding alloc_inv_def using d sub cnt cap total by blast
qed

lemma map_of_fold_const:
  "map_of (fold (\<lambda>x acc. AList.update (f x) c acc) xs acc0) k =
     (if k \<in> f ` set xs then Some c else map_of acc0 k)"
  by (induction xs arbitrary: acc0) (auto simp: update_conv')

lemma values_update: "snd ` set (AList.update k v al) \<subseteq> insert v (snd ` set al)"
  by (induction al) auto

lemma values_fold_const:
  "snd ` set (fold (\<lambda>x acc. AList.update (f x) c acc) xs acc0) \<subseteq> insert c (snd ` set acc0)"
proof (induction xs arbitrary: acc0)
  case Nil
  then show ?case by auto
next
  case (Cons x xs)
  show ?case using Cons [of "AList.update (f x) c acc0"] values_update [of "f x" c acc0] by auto
qed

lemma sum_list_all_zero: "\<forall>x \<in> set xs. x = (0::int) \<Longrightarrow> sum_list xs = 0"
  by (induction xs) auto

lemma alloc_inv_init: "alloc_inv internships (init_state self internships)"
proof -
  have u: "used_get (init_state self internships) k = 0" for k
    by (simp add: used_get_def init_state_def map_of_fold_const)
  have "snd ` set (internship_capacity_used (init_state self internships)) \<subseteq> {0}"
    using values_fold_const [of i_id 0 internships "[]"] by (simp add: init_state_def)
  then have z: "sum_list (map snd (internship_capacity_used (init_state self internships))) = 0"
    by (intro sum_list_all_zero) auto
  have f: "final_allocations (init_state self internships) = []"
    by (simp add: init_state_def)
  show ?thesis
    unfolding alloc_inv_def by (simp add: u z f count_for_def)
qed

lemma allocate_with_quotas_inv:
  assumes "allocate_with_quotas self matches internship_matches quota_slots internships = Inr r"
  obtains st where "alloc_inv internships st"
    and "r_final_allocations r = final_allocations st"
    and "r_quota_fulfillment r = quota_filled st"
    and "total_allocated (r_summary r) = int (length (final_allocations st))"
    and "total_capacity (r_summary r) = sum_list (map snd (internship_capacity_used st))"
    and "capacity_utilization (r_summary r) = internship_capacity_used st"
proof -
  from assms obtain st1 st2 where
    p1: "phase1 internships quota_slots matches reserved_categories (init_state self internships) = Inr st1"
    and p2: "phase2 internships quota_slots (case map_of quota_slots ''general'' of None \<Rightarrow> 0 | Some g \<Rightarrow> g)
               matches st1 = Inr st2"
    and r: "r = \<lparr>r_final_allocations = final_allocations st2,
               r_quota_fulfillment = quota_filled st2,
               r_summary = \<lparr>
                 total_allocated = int (length (final_allocations st2)),
                 total_capacity = sum_list (map snd (internship_capacity_used st2)),
                 s_quota_slots = quota_slots,
                 capacity_utilization = internship_capacity_used st2 \<rparr> \<rparr>"
    by (auto simp: allocate_with_quotas_def split: sum.splits)
  have "alloc_inv internships st1"
    by (rule phase1_preserves [where P = "alloc_inv internships" and internships = internships
          and st = "init_state self internships" and st' = st1 and slots = quota_slots
          and ms = matches and cs = reserved_categories])
       (erule (2) alloc_inv_step, rule alloc_inv_init, rule p1)
  then have "alloc_inv internships st2"
    by (rule phase2_preserves [where P = "alloc_inv internships" and internships = internships
          and st = st1 and st' = st2 and slots = quota_slots and ms = matches, rotated])
       (rule p2, erule (2) alloc_inv_step)
  then show ?thesis using that [of st2] r by simp
qed

lemma sample_run:
  "allocate_with_quotas init_service sample_matches [] sample_slots sample_internships = Inr sample_result"
  by code_simp

lemma get_internship_capacity_distinct:
  "distinct (map i_id internships) \<Longrightarrow> i \<in> set internships \<Longrightarrow>
     get_internship_capacity (i_id i) internships = capacity_of i"
  by (induction internships) auto

text \<open>
  Claim C2. Whenever \<^verbatim>\<open>_allocate_with_quotas\<close> returns, for any matches, internships
  and quota plan, the candidate ids of the records in \<^verbatim>\<open>final_allocations\<close> are
  pairwise different: no candidate is allocated twice, in Phase 1, in Phase 2 or across the two.
\<close>

theorem no_candidate_allocated_twice:
  assumes "allocate_with_quotas self matches internship_matches quota_slots internships = Inr r"
  shows "distinct (map a_candidate_id (r_final_allocations r))"
proof -
  from assms obtain st where "alloc_inv internships st" "r_final_allocations r = final_allocations st"
    by (rule allocate_with_quotas_inv)
  then show ?thesis by (simp add: alloc_inv_def)
qed

theorem no_candidate_allocated_twice_witness:
  "allocate_with_quotas init_service sample_matches [] sample_slots sample_internships = Inr sample_result \<and>
   map a_candidate_id (r_final_allocations sample_result) = [Some ''b'', Some ''d'', Some ''a''] \<and>
   distinct (map a_candidate_id (r_final_allocations sample_result))"
  using no_candidate_allocated_twice [OF sample_run] sample_run
  by (simp add: sample_result_def sample_allocation_def)

text \<open>
  Claim C3. Whenever \<^verbatim>\<open>_allocate_with_quotas\<close> returns, every internship of the input
  list has at most as many allocation records as its capacity, the capacity being 1 when the
  field is absent. The internships are those of the data model: their ids are pairwise different
  and no capacity is negative.
\<close>

theorem internship_capacity_respected:
  assumes "allocate_with_quotas self matches internship_matches quota_slots internships = Inr r"
    and "distinct (map i_id internships)"
    and "i \<in> set internships"
    and "0 \<le> capacity_of i"
  shows "count_for (i_id i) (r_final_allocations r) \<le> capacity_of i"
proof -
  from assms(1) obtain st where inv: "alloc_inv internships st"
    and fa: "r_final_allocations r = final_allocations st"
    by (rule allocate_with_quotas_inv)
  have "count_for (i_id i) (final_allocations st) = used_get st (i_id i)"
    using inv by (simp add: alloc_inv_def)
  moreover have "used_get st (i_id i) \<le> max 0 (get_internship_capacity (i_id i) internships)"
    using inv by (simp add: alloc_inv_def)
  moreover have "get_internship_capacity (i_id i) internships = capacity_of i"
    using assms(2,3) by (rule get_internship_capacity_distinct)
  ultimately show ?thesis using assms(4) fa by simp
qed

theorem internship_capacity_respected_witness:
  "allocate_with_quotas init_service sample_matches [] sample_slots sample_internships = Inr sample_result \<and>
   distinct (map i_id sample_internships) \<and>
   \<lparr>i_id = Some ''i2'', i_capacity = None\<rparr> \<in> set sample_internships \<and>
   0 \<le> capacity_of \<lparr>i_id = Some ''i2'', i_capacity = None\<rparr> \<and>
   capacity_of \<lparr>i_id = Some ''i2'', i_capacity = None\<rparr> = 1 \<and>
   count_for (Some ''i2'') (r_final_allocations sample_result) \<le> 1"
proof -
  have d: "distinct (map i_id sample_internships)"
    by (simp add: sample_internships_def)
  have i: "\<lparr>i_id = Some ''i2'', i_capacity = None\<rparr> \<in> set sample_internships"
    by (simp add: sample_internships_def)
  have c: "capacity_of \<lparr>i_id = Some ''i2'', i_capacity = None\<rparr> = 1"
    by (simp add: capacity_of_def)
  have n: "0 \<le> capacity_of \<lparr>i_id = Some ''i2'', i_capacity = None\<rparr>"
    by (simp add: c)
  show ?thesis
    using internship_capacity_respected [OF sample_run d i n] sample_run d i c by simp
qed

lemma lookup_present: "map_of d k \<noteq> None \<Longrightarrow> \<exists>v. lookup d k = Inr v \<and> map_of d k = Some v"
  by (cases "map_of d k") (simp_all add: lookup_def)

lemma record_allocation_total:
  assumes "keys_ok internships st"
    and "m_internship_id m \<in> i_id ` set internships"
    and "\<forall>c \<in> set all_categories. map_of qf c \<noteq> None"
  shows "\<exists>st'. record_allocation st m cat ty qf = Inr st' \<and> keys_ok internships st'"
proof -
  from assms(2) obtain j where j: "j \<in> set internships" "m_internship_id m = i_id j"
    by (rule imageE)
  have tracked: "\<forall>i \<in> set internships. map_of (internship_capacity_used st) (i_id i) \<noteq> None"
    using assms(1) unfolding keys_ok_def by (rule conjunct2)
  have "map_of (internship_capacity_used st) (m_internship_id m) \<noteq> None"
    using tracked j(1) unfolding j(2) by (rule bspec)
  from lookup_present [OF this]
  obtain u where u: "lookup (internship_capacity_used st) (m_internship_id m) = Inr u"
    by (elim exE conjE)
  let ?st' = "st\<lparr>
          final_allocations := final_allocations st @ [create_allocation_record m cat ty],
          quota_filled := qf,
          internship_capacity_used := AList.update (m_internship_id m) (u + 1) (internship_capacity_used st),
          allocated_candidates := insert (m_candidate_id m) (allocated_candidates st)\<rparr>"
  have r: "record_allocation st m cat ty qf = Inr ?st'"
    by (simp add: record_allocation_def u)
  have k: "\<forall>i \<in> set internships. map_of (internship_capacity_used ?st') (i_id i) \<noteq> None"
  proof
    fix i assume "i \<in> set internships"
    with tracked have "map_of (internship_capacity_used st) (i_id i) \<noteq> None"
      by (rule bspec)
    then show "map_of (internship_capacity_used ?st') (i_id i) \<noteq> None"
      by (simp add: update_conv' del: not_None_eq)
  qed
  have q: "quota_filled ?st' = qf" by simp
  have "keys_ok internships ?st'"
    unfolding keys_ok_def q using assms(3) k by (rule conjI)
  with r show ?thesis by (intro exI conjI)
qed


lemma phase1_scan_total:
  assumes c: "c \<in> set all_categories"
  shows "\<forall>m \<in> set ms. m_internship_id m \<in> i_id ` set internships \<Longrightarrow> keys_ok internships st \<Longrightarrow>
         \<exists>st'. phase1_scan internships c l ms st = Inr st' \<and> keys_ok internships st'"
proof (induction ms arbitrary: st)
  case Nil
  then show ?case by simp
next
  case (Cons m ms)
  have ids: "\<forall>m \<in> set ms. m_internship_id m \<in> i_id ` set internships"
    and mid: "m_internship_id m \<in> i_id ` set internships"
    using Cons.prems(1) by simp_all
  have cats: "\<forall>k \<in> set all_categories. map_of (quota_filled st) k \<noteq> None"
    using Cons.prems(2) unfolding keys_ok_def by (rule conjunct1)
  from cats c have "map_of (quota_filled st) c \<noteq> None" by (rule bspec)
  from lookup_present [OF this] obtain filled where f: "lookup (quota_filled st) c = Inr filled"
    by (elim exE conjE)
  have qf: "\<forall>k \<in> set all_categories. map_of (AList.update c (filled + 1) (quota_filled st)) k \<noteq> None"
  proof
    fix k assume "k \<in> set all_categories"
    with cats have "map_of (quota_filled st) k \<noteq> None" by (rule bspec)
    then show "map_of (AList.update c (filled + 1) (quota_filled st)) k \<noteq> None"
      by (simp add: update_conv' del: not_None_eq)
  qed
  from record_allocation_total [OF Cons.prems(2) mid qf, where cat = c and ty = "''quota''"]
  obtain st1 where st1: "record_allocation st m c ''quota'' (AList.update c (filled + 1) (quota_filled st)) = Inr st1"
    and k1: "keys_ok internships st1"
    by (elim exE conjE)
  note ih0 = Cons.IH [OF ids Cons.prems(2)]
  note ih1 = Cons.IH [OF ids k1]
  show ?case
  proof (cases "filled \<ge> l")
    case True
    then show ?thesis using Cons.prems(2) by (simp add: f)
  next
    case False
    note nf = False
    show ?thesis
    proof (cases "skipped internships st m")
      case True
      then show ?thesis using nf ih0 by (simp add: f)
    next
      case False
      then show ?thesis using nf ih0 ih1 by (simp add: f st1)
    qed
  qed
qed

lemma phase1_total:
  assumes ids: "\<forall>m \<in> set ms. m_internship_id m \<in> i_id ` set internships"
  shows "set cs \<subseteq> set all_categories \<Longrightarrow> keys_ok internships st \<Longrightarrow>
         \<exists>st'. phase1 internships slots ms cs st = Inr st' \<and> keys_ok internships st'"
proof (induction cs arbitrary: st)
  case Nil
  then show ?case by simp
next
  case (Cons c cs)
  have c: "c \<in> set all_categories" and cs: "set cs \<subseteq> set all_categories"
    using Cons.prems(1) by simp_all
  from phase1_scan_total [OF c ids Cons.prems(2), where l = "case map_of slots c of None \<Rightarrow> 0 | Some l \<Rightarrow> l"]
  obtain st1 where s1: "phase1_scan internships c (case map_of slots c of None \<Rightarrow> 0 | Some l \<Rightarrow> l) ms st = Inr st1"
    and k1: "keys_ok internships st1"
    by (elim exE conjE)
  show ?case using Cons.IH [OF cs k1] by (simp add: s1)
qed

lemma fill_reserved_total:
  "\<forall>c \<in> set cs. map_of filled c \<noteq> None \<and> map_of slots c \<noteq> None \<Longrightarrow>
   \<exists>r. fill_reserved filled slots cs = Inr r \<and>
       (\<forall>f'. r = Some f' \<longrightarrow> (\<forall>k. map_of filled k \<noteq> None \<longrightarrow> map_of f' k \<noteq> None))"
proof (induction cs)
  case Nil
  then show ?case by simp
next
  case (Cons c cs)
  have "map_of filled c \<noteq> None" and "map_of slots c \<noteq> None"
    using Cons.prems by simp_all
  from lookup_present [OF this(1)] lookup_present [OF this(2)]
  obtain f s where f: "lookup filled c = Inr f" and s: "lookup slots c = Inr s"
    by (elim exE conjE)
  have ih: "\<exists>r. fill_reserved filled slots cs = Inr r \<and>
       (\<forall>f'. r = Some f' \<longrightarrow> (\<forall>k. map_of filled k \<noteq> None \<longrightarrow> map_of f' k \<noteq> None))"
    using Cons.IH Cons.prems by simp
  show ?case
  proof (cases "f < s")
    case True
    then show ?thesis by (simp add: f s update_conv')
  next
    case False
    then show ?thesis using ih by (simp add: f s)
  qed
qed

lemma take_general_total:
  assumes "map_of filled ''general'' \<noteq> None"
  shows "\<exists>r. take_general filled g ty = Inr r \<and>
       (\<forall>f' t. r = Some (f', t) \<longrightarrow> (\<forall>k. map_of filled k \<noteq> None \<longrightarrow> map_of f' k \<noteq> None))"
proof -
  from lookup_present [OF assms] obtain v where v: "lookup filled ''general'' = Inr v"
    by (elim exE conjE)
  show ?thesis
    by (cases "v < g") (simp_all add: take_general_def v update_conv')
qed


lemma general_in_all: "''general'' \<in> set all_categories"
  unfolding all_categories_def by (rule list.set_intros(1))

lemma reserved_in_all: "set reserved_categories \<subseteq> set all_categories"
  unfolding all_categories_def by (rule set_subset_Cons)

lemma phase2_decide_total:
  assumes cats: "\<forall>c \<in> set all_categories. map_of filled c \<noteq> None"
    and slots: "\<forall>c \<in> set reserved_categories. map_of slots c \<noteq> None"
  shows "\<exists>r. phase2_decide filled slots g cat = Inr r \<and>
       (\<forall>f' t. r = Some (f', t) \<longrightarrow> (\<forall>c \<in> set all_categories. map_of f' c \<noteq> None))"
proof -
  have g: "map_of filled ''general'' \<noteq> None"
    using cats general_in_all by (rule bspec)
  have rs: "\<forall>c \<in> set reserved_categories. map_of filled c \<noteq> None \<and> map_of slots c \<noteq> None"
  proof
    fix c assume c: "c \<in> set reserved_categories"
    then have "c \<in> set all_categories" using reserved_in_all by (rule rev_subsetD)
    with cats have "map_of filled c \<noteq> None" by (rule bspec)
    moreover from slots c have "map_of slots c \<noteq> None" by (rule bspec)
    ultimately show "map_of filled c \<noteq> None \<and> map_of slots c \<noteq> None" by (rule conjI)
  qed
  have keep: "\<forall>c \<in> set all_categories. map_of f' c \<noteq> None"
    if h: "\<And>k. map_of filled k \<noteq> None \<Longrightarrow> map_of f' k \<noteq> None" for f'
  proof
    fix c assume "c \<in> set all_categories"
    with cats have "map_of filled c \<noteq> None" by (rule bspec)
    then show "map_of f' c \<noteq> None" by (rule h)
  qed
  from take_general_total [OF g, where g = g and ty = "''general''"]
  obtain r1 where r1: "take_general filled g ''general'' = Inr r1"
    and k1: "\<forall>f' t. r1 = Some (f', t) \<longrightarrow> (\<forall>k. map_of filled k \<noteq> None \<longrightarrow> map_of f' k \<noteq> None)"
    by (elim exE conjE)
  from fill_reserved_total [OF rs]
  obtain r2 where r2: "fill_reserved filled slots reserved_categories = Inr r2"
    and k2: "\<forall>f'. r2 = Some f' \<longrightarrow> (\<forall>k. map_of filled k \<noteq> None \<longrightarrow> map_of f' k \<noteq> None)"
    by (elim exE conjE)
  from take_general_total [OF g, where g = g and ty = "''merit''"]
  obtain r3 where r3: "take_general filled g ''merit'' = Inr r3"
    and k3: "\<forall>f' t. r3 = Some (f', t) \<longrightarrow> (\<forall>k. map_of filled k \<noteq> None \<longrightarrow> map_of f' k \<noteq> None)"
    by (elim exE conjE)
  have tail: "\<exists>r. (case r2 of Some filled' \<Rightarrow> Inr (Some (filled', ''merit_in_quota'')) | None \<Rightarrow> Inr r3) = Inr r \<and>
       (\<forall>f' t. r = Some (f', t) \<longrightarrow> (\<forall>c \<in> set all_categories. map_of f' c \<noteq> None))"
  proof (cases r2)
    case None
    have "\<forall>f' t. r3 = Some (f', t) \<longrightarrow> (\<forall>c \<in> set all_categories. map_of f' c \<noteq> None)"
    proof (intro allI impI)
      fix f' t assume "r3 = Some (f', t)"
      note k3 [rule_format, OF this]
      then show "\<forall>c \<in> set all_categories. map_of f' c \<noteq> None"
        by (rule keep)
    qed
    then show ?thesis using None by (simp del: not_None_eq)
  next
    case (Some f2)
    have "\<forall>c \<in> set all_categories. map_of f2 c \<noteq> None"
      by (rule keep) (rule k2 [rule_format, OF Some])
    then show ?thesis using Some by (simp del: not_None_eq)
  qed
  have d2: "(case fill_reserved filled slots reserved_categories of
             Inl e \<Rightarrow> Inl e
           | Inr (Some filled') \<Rightarrow> Inr (Some (filled', ''merit_in_quota''))
           | Inr None \<Rightarrow> take_general filled g ''merit'') =
        (case r2 of Some filled' \<Rightarrow> Inr (Some (filled', ''merit_in_quota'')) | None \<Rightarrow> Inr r3)"
    by (simp add: r2 r3 split: option.splits)
  show ?thesis
  proof (cases "cat = ''general''")
    case True
    show ?thesis
    proof (cases r1)
      case None
      then show ?thesis using True tail unfolding phase2_decide_def d2 by (simp add: r1 del: not_None_eq)
    next
      case (Some p)
      obtain f1 t1 where p: "p = (f1, t1)" by (cases p)
      have "\<forall>c \<in> set all_categories. map_of f1 c \<noteq> None"
        by (rule keep) (rule k1 [rule_format, of f1 t1], simp add: Some p)
      then show ?thesis using True Some p unfolding phase2_decide_def d2 by (simp add: r1 del: not_None_eq)
    qed
  next
    case False
    then show ?thesis using tail unfolding phase2_decide_def d2 by (simp del: not_None_eq)
  qed
qed


lemma phase2_total:
  assumes slots: "\<forall>c \<in> set reserved_categories. map_of slots c \<noteq> None"
  shows "\<forall>m \<in> set ms. m_internship_id m \<in> i_id ` set internships \<Longrightarrow> keys_ok internships st \<Longrightarrow>
         \<exists>st'. phase2 internships slots g ms st = Inr st' \<and> keys_ok internships st'"
proof (induction ms arbitrary: st)
  case Nil
  then show ?case by simp
next
  case (Cons m ms)
  have ids: "\<forall>m \<in> set ms. m_internship_id m \<in> i_id ` set internships"
    and mid: "m_internship_id m \<in> i_id ` set internships"
    using Cons.prems(1) by simp_all
  have cats: "\<forall>k \<in> set all_categories. map_of (quota_filled st) k \<noteq> None"
    using Cons.prems(2) unfolding keys_ok_def by (rule conjunct1)
  note ih0 = Cons.IH [OF ids Cons.prems(2)]
  from phase2_decide_total [OF cats slots, where g = g and cat = "get_candidate_category m"]
  obtain r where r: "phase2_decide (quota_filled st) slots g (get_candidate_category m) = Inr r"
    and kr: "\<forall>f' t. r = Some (f', t) \<longrightarrow> (\<forall>c \<in> set all_categories. map_of f' c \<noteq> None)"
    by (elim exE conjE)
  show ?case
  proof (cases "skipped internships st m")
    case True
    then show ?thesis using ih0 by simp
  next
    case False
    show ?thesis
    proof (cases r)
      case None
      then show ?thesis using False ih0 by (simp add: r)
    next
      case (Some p)
      obtain f' t where p: "p = (f', t)" by (cases p)
      have "r = Some (f', t)" using Some p by simp
      note qf = kr [rule_format, OF this]
      have qf': "\<forall>c \<in> set all_categories. map_of f' c \<noteq> None"
        by (rule ballI) (rule qf)
      from record_allocation_total [OF Cons.prems(2) mid qf', where cat = "get_candidate_category m" and ty = t]
      obtain st1 where st1: "record_allocation st m (get_candidate_category m) t f' = Inr st1"
        and k1: "keys_ok internships st1"
        by (elim exE conjE)
      show ?thesis using False Cons.IH [OF ids k1] by (simp add: r Some p st1)
    qed
  qed
qed

lemma keys_ok_init:
  assumes "list_all (\<lambda>c. map_of (quotas self) c \<noteq> None) all_categories"
  shows "keys_ok internships (init_state self internships)"
proof -
  have q: "map_of (quota_filled (init_state self internships)) c \<noteq> None" if "c \<in> set all_categories" for c
  proof -
    have "map_of (quotas self) c \<noteq> None"
      using assms that by (simp add: list_all_iff del: not_None_eq)
    then have "c \<in> fst ` set (quotas self)"
      by (simp add: map_of_eq_None_iff del: not_None_eq)
    then have "c \<in> (\<lambda>x. x) ` set (map fst (quotas self))" by simp
    then show ?thesis
      unfolding init_state_def
      by (simp add: map_of_fold_const [where f = "\<lambda>x. x"] del: not_None_eq)
  qed
  have u: "map_of (internship_capacity_used (init_state self internships)) (i_id i) \<noteq> None"
    if "i \<in> set internships" for i
    using that unfolding init_state_def by (simp add: map_of_fold_const del: not_None_eq)
  show ?thesis
    unfolding keys_ok_def using q u by (intro conjI ballI)
qed

lemma allocate_with_quotas_total:
  assumes ids: "\<forall>m \<in> set matches. m_internship_id m \<in> i_id ` set internships"
    and keys: "quota_keys_ok self quota_slots"
  shows "\<exists>r. allocate_with_quotas self matches internship_matches quota_slots internships = Inr r"
proof -
  have k0: "keys_ok internships (init_state self internships)"
    using keys unfolding quota_keys_ok_def by (intro keys_ok_init) (rule conjunct1)
  have slots: "\<forall>c \<in> set reserved_categories. map_of quota_slots c \<noteq> None"
    using keys unfolding quota_keys_ok_def by (simp add: list_all_iff del: not_None_eq)
  from phase1_total [OF ids reserved_in_all k0, where slots = quota_slots]
  obtain st1 where p1: "phase1 internships quota_slots matches reserved_categories (init_state self internships) = Inr st1"
    and k1: "keys_ok internships st1"
    by (elim exE conjE)
  from phase2_total [OF slots ids k1, where g = "case map_of quota_slots ''general'' of None \<Rightarrow> 0 | Some g \<Rightarrow> g"]
  obtain st2 where p2: "phase2 internships quota_slots (case map_of quota_slots ''general'' of None \<Rightarrow> 0 | Some g \<Rightarrow> g)
               matches st1 = Inr st2"
    by (elim exE conjE)
  show ?thesis
    unfolding allocate_with_quotas_def by (simp add: p1 p2)
qed

lemma single_run:
  "allocate_with_quotas init_service single_match [] sample_slots roomy_internship = Inr single_result"
  by code_simp

lemma quota_keys_ok_sample: "quota_keys_ok init_service sample_slots"
  by code_simp

text \<open>
  Claim C10. When every match names an internship of the input list (and the five categories
  are configured, with a slot count for each reserved one), \<^verbatim>\<open>_allocate_with_quotas\<close>
  returns, and the \<^verbatim>\<open>total_capacity\<close> of its summary is the number of records in
  \<^verbatim>\<open>final_allocations\<close>: it sums the per-internship used counts, not the declared
  capacities, so it always equals \<^verbatim>\<open>total_allocated\<close>.
\<close>

theorem summary_total_capacity_counts_allocations:
  assumes "\<forall>m \<in> set matches. m_internship_id m \<in> i_id ` set internships"
    and "quota_keys_ok self quota_slots"
  shows "\<exists>r. allocate_with_quotas self matches internship_matches quota_slots internships = Inr r \<and>
           total_capacity (r_summary r) = int (length (r_final_allocations r)) \<and>
           total_allocated (r_summary r) = total_capacity (r_summary r)"
proof -
  from allocate_with_quotas_total [OF assms, where internship_matches = internship_matches]
  obtain r where r: "allocate_with_quotas self matches internship_matches quota_slots internships = Inr r"
    by (elim exE)
  from r obtain st where inv: "alloc_inv internships st"
    and fa: "r_final_allocations r = final_allocations st"
    and ta: "total_allocated (r_summary r) = int (length (final_allocations st))"
    and tc: "total_capacity (r_summary r) = sum_list (map snd (internship_capacity_used st))"
    by (rule allocate_with_quotas_inv)
  have "sum_list (map snd (internship_capacity_used st)) = int (length (final_allocations st))"
    using inv unfolding alloc_inv_def by (elim conjE)
  then have "total_capacity (r_summary r) = int (length (r_final_allocations r)) \<and>
           total_allocated (r_summary r) = total_capacity (r_summary r)"
    using fa ta tc by simp
  with r have "allocate_with_quotas self matches internship_matches quota_slots internships = Inr r \<and>
           total_capacity (r_summary r) = int (length (r_final_allocations r)) \<and>
           total_allocated (r_summary r) = total_capacity (r_summary r)"
    by (rule conjI)
  then show ?thesis by (rule exI)
qed

theorem summary_total_capacity_counts_allocations_witness:
  "list_all (\<lambda>m. m_internship_id m \<in> i_id ` set roomy_internship) single_match \<and>
   quota_keys_ok init_service sample_slots \<and>
   sum_list (map capacity_of roomy_internship) = 5 \<and>
   (\<exists>r. allocate_with_quotas init_service single_match [] sample_slots roomy_internship = Inr r \<and>
        total_capacity (r_summary r) = 1 \<and> total_allocated (r_summary r) = 1)"
proof -
  have ids: "\<forall>m \<in> set single_match. m_internship_id m \<in> i_id ` set roomy_internship"
    by (simp add: single_match_def roomy_internship_def sample_candidate_def)
  have cap: "sum_list (map capacity_of roomy_internship) = 5"
    by (simp add: roomy_internship_def capacity_of_def)
  from summary_total_capacity_counts_allocations [OF ids quota_keys_ok_sample, where internship_matches = "[]"]
  obtain r where r: "allocate_with_quotas init_service single_match [] sample_slots roomy_internship = Inr r"
    and tc: "total_capacity (r_summary r) = int (length (r_final_allocations r))"
    and ta: "total_allocated (r_summary r) = total_capacity (r_summary r)"
    by (elim exE conjE)
  have "r = single_result" using r single_run by simp
  then have "length (r_final_allocations r) = 1" by (simp add: single_result_def)
  then have "total_capacity (r_summary r) = 1 \<and> total_allocated (r_summary r) = 1"
    using tc ta by simp
  with r have "allocate_with_quotas init_service single_match [] sample_slots roomy_internship = Inr r \<and>
        total_capacity (r_summary r) = 1 \<and> total_allocated (r_summary r) = 1"
    by (rule conjI)
  then have "\<exists>r. allocate_with_quotas init_service single_match [] sample_slots roomy_internship = Inr r \<and>
        total_capacity (r_summary r) = 1 \<and> total_allocated (r_summary r) = 1"
    by (rule exI)
  moreover have "list_all (\<lambda>m. m_internship_id m \<in> i_id ` set roomy_internship) single_match"
    using ids by (simp add: list_all_iff)
  ultimately show ?thesis using cap quota_keys_ok_sample by (intro conjI)
qed

section \<open>Spillover into reserved slots\<close>






section \<open>Quota planning\<close>

text \<open>
  Claim C1. The plan computed by \<^verbatim>\<open>_calculate_quota_slots\<close> is meant to sum to at
  most the total capacity, and the code says so above its reduction step. It does not: the
  reduction replaces a slot count by \<open>max 1 (int (count * C / sum))\<close>, and the counts it raises
  back to 1 can carry the sum over \<open>C\<close>. With the percentages 0.5, 0.15, 0.05, 0.2, 0.1, which
  \<^verbatim>\<open>update_quotas\<close> accepts, and one seat, every category gets one slot: five slots
  for one seat. With 0.96 and four times 0.01 and five seats, as many seats as categories, the
  plan is 2, 1, 1, 1, 1: six slots.
\<close>

theorem quota_slots_exceed_capacity:
  "update_quotas init_service balanced_table = (None, init_service\<lparr>quotas := balanced_table\<rparr>) \<and>
   sum_list (map snd balanced_table) = 1 \<and>
   calculate_quota_slots (init_service\<lparr>quotas := balanced_table\<rparr>) 1 = Inr sample_slots \<and>
   slots_total sample_slots = 5 \<and>
   update_quotas init_service skewed_table = (None, init_service\<lparr>quotas := skewed_table\<rparr>) \<and>
   calculate_quota_slots (init_service\<lparr>quotas := skewed_table\<rparr>) 5 =
     Inr [(''general'', 2), (''sc'', 1), (''st'', 1), (''obc'', 1), (''ews'', 1)] \<and>
   slots_total [(''general'', 2), (''sc'', 1), (''st'', 1), (''obc'', 1), (''ews'', 1)] = 6"
proof -
  have "\<not> tolerance_exceeded (py_sum (map (\<lambda>kv. to_double (snd kv)) balanced_table))"
    by (simp add: balanced_table_def float_eval)
  then have "update_quotas init_service balanced_table =
      (None, init_service\<lparr>quotas := dict_update (quotas init_service) balanced_table\<rparr>)"
    by (simp add: update_quotas_def update_quotas_with_def Let_def)
  moreover have "dict_update (quotas init_service) balanced_table = balanced_table"
    by (simp add: balanced_table_def init_service_def dict_update_def)
  ultimately have a: "update_quotas init_service balanced_table = (None, init_service\<lparr>quotas := balanced_table\<rparr>)"
    by simp
  have b: "sum_list (map snd balanced_table) = 1"
    by (simp add: balanced_table_def)
  have c: "calculate_quota_slots (init_service\<lparr>quotas := balanced_table\<rparr>) 1 = Inr sample_slots"
    by (simp add: calculate_quota_slots_def first_pass_slots_def reduce_slots_def py_int_def
        balanced_table_def sample_slots_def)
  have d: "slots_total sample_slots = 5"
    by (simp add: slots_total_def sample_slots_def)
  have "\<not> tolerance_exceeded (py_sum (map (\<lambda>kv. to_double (snd kv)) skewed_table))"
    by (simp add: skewed_table_def float_eval)
  then have "update_quotas init_service skewed_table =
      (None, init_service\<lparr>quotas := dict_update (quotas init_service) skewed_table\<rparr>)"
    by (simp add: update_quotas_def update_quotas_with_def Let_def)
  moreover have "dict_update (quotas init_service) skewed_table = skewed_table"
    by (simp add: skewed_table_def init_service_def dict_update_def)
  ultimately have e: "update_quotas init_service skewed_table = (None, init_service\<lparr>quotas := skewed_table\<rparr>)"
    by simp
  have f: "calculate_quota_slots (init_service\<lparr>quotas := skewed_table\<rparr>) 5 =
     Inr [(''general'', 2), (''sc'', 1), (''st'', 1), (''obc'', 1), (''ews'', 1)]"
    by code_simp
  have g: "slots_total [(''general'', 2), (''sc'', 1), (''st'', 1), (''obc'', 1), (''ews'', 1)] = 6"
    by (simp add: slots_total_def)
  show ?thesis using a b c d e f g by (intro conjI)
qed

section \<open>Salary attractiveness\<close>

text \<open>
  Claim C8 as stated: the salary component of \<^verbatim>\<open>_calculate_real_match_score\<close> is the
  step function with values 0.2, 0.4, 0.6, 0.8, 1.0. At an upper salary bound of 20000 it is
  2/3, which is none of the five values; the step function gives 0.6 there.
\<close>

theorem real_salary_score_is_not_the_step_function:
  "real_salary_score (Some 20000) = 2 / 3 \<and>
   calculate_salary_attractiveness (Some 20000) = 6 / 10 \<and>
   real_salary_score (Some 20000) \<notin> set [2 / 10, 4 / 10, 6 / 10, 8 / 10, 1]"
  by (simp add: real_salary_score_def calculate_salary_attractiveness_def)

text \<open>
  Claim C8, amended. In \<^verbatim>\<open>_calculate_real_match_score\<close> the salary component is
  \<open>min (salary_max / 30000) 1\<close>, with 15000 for an absent bound: it is monotonic in the upper
  salary bound, a ramp that reaches 1 at 30000, not a step function. It enters the final score
  with weight 0.05. The step function with thresholds 10000, 15000, 25000, 40000 and values 0.2,
  0.4, 0.6, 0.8, 1.0 is the salary component of the scraper service's
  \<^verbatim>\<open>calculate_match_score\<close>, which is monotonic too and also weighted 0.05.
\<close>

theorem salary_component_of_the_two_scorers:
  "real_salary_score (Some s) = min (of_int s / 30000) 1 \<and>
   real_salary_score None = 1 / 2 \<and>
   (s \<le> t \<longrightarrow> real_salary_score (Some s) \<le> real_salary_score (Some t)) \<and>
   real_final_score k c l e y - real_final_score k c l e x =
     (real_salary_score y - real_salary_score x) * (5 / 100) \<and>
   calculate_salary_attractiveness (Some s) =
     (if s < 10000 then 2 / 10 else if s < 15000 then 4 / 10 else if s < 25000 then 6 / 10
      else if s < 40000 then 8 / 10 else 1) \<and>
   (s \<le> t \<longrightarrow> calculate_salary_attractiveness (Some s) \<le> calculate_salary_attractiveness (Some t)) \<and>
   scraper_final_score k c l e' y - scraper_final_score k c l e' x =
     (calculate_salary_attractiveness y - calculate_salary_attractiveness x) * (5 / 100)"
proof -
  have a: "real_salary_score (Some s) = min (of_int s / 30000) 1"
    by (simp add: real_salary_score_def)
  have b: "real_salary_score None = 1 / 2"
    by (simp add: real_salary_score_def)
  have m: "s \<le> t \<longrightarrow> real_salary_score (Some s) \<le> real_salary_score (Some t)"
  proof
    assume "s \<le> t"
    then have "(of_int s :: rat) \<le> of_int t"
      by simp
    then show "real_salary_score (Some s) \<le> real_salary_score (Some t)"
      by (simp add: real_salary_score_def min_def)
  qed
  have w: "real_final_score k c l e y - real_final_score k c l e x =
     (real_salary_score y - real_salary_score x) * (5 / 100)"
    by (simp add: real_final_score_def algebra_simps)
  have st: "calculate_salary_attractiveness (Some s) =
     (if s < 10000 then 2 / 10 else if s < 15000 then 4 / 10 else if s < 25000 then 6 / 10
      else if s < 40000 then 8 / 10 else 1)"
    by (simp add: calculate_salary_attractiveness_def)
  have sm: "s \<le> t \<longrightarrow> calculate_salary_attractiveness (Some s) \<le> calculate_salary_attractiveness (Some t)"
    by (simp add: calculate_salary_attractiveness_def)
  have sw: "scraper_final_score k c l e' y - scraper_final_score k c l e' x =
     (calculate_salary_attractiveness y - calculate_salary_attractiveness x) * (5 / 100)"
    by (simp add: scraper_final_score_def algebra_simps)
  show ?thesis using a b m w st sm sw by (intro conjI)
qed

theorem salary_component_of_the_two_scorers_witness:
  "(12000::int) \<le> 20000 \<and>
   real_salary_score (Some 12000) = 4 / 10 \<and> real_salary_score (Some 20000) = 2 / 3 \<and>
   real_salary_score (Some 12000) \<le> real_salary_score (Some 20000) \<and>
   calculate_salary_attractiveness (Some 12000) = 4 / 10 \<and>
   calculate_salary_attractiveness (Some 12000) \<le> calculate_salary_attractiveness (Some 20000) \<and>
   real_final_score 1 1 1 3 (Some 30000) - real_final_score 1 1 1 3 (Some 0) = 5 / 100"
proof -
  have h: "(12000::int) \<le> 20000" by simp
  note t = salary_component_of_the_two_scorers [of 12000 20000 1 1 1 3 "Some 30000" "Some 0"]
  have m: "real_salary_score (Some 12000) \<le> real_salary_score (Some 20000)"
    using t h by blast
  have sm: "calculate_salary_attractiveness (Some 12000) \<le> calculate_salary_attractiveness (Some 20000)"
    using t h by blast
  have v: "real_salary_score (Some 12000) = 4 / 10" "real_salary_score (Some 20000) = 2 / 3"
    "calculate_salary_attractiveness (Some 12000) = 4 / 10"
    "real_salary_score (Some 30000) = 1" "real_salary_score (Some 0) = 0"
    by (simp_all add: real_salary_score_def calculate_salary_attractiveness_def)
  have w: "real_final_score 1 1 1 3 (Some 30000) - real_final_score 1 1 1 3 (Some 0) =
     (real_salary_score (Some 30000) - real_salary_score (Some 0)) * (5 / 100)"
    using t by blast
  have w': "real_final_score 1 1 1 3 (Some 30000) - real_final_score 1 1 1 3 (Some 0) = 5 / 100"
    unfolding w v by simp
  show ?thesis using h v(1,2,3) m sm w' by (intro conjI)
qed

section \<open>The errors a run can raise\<close>

lemma lookup_error: "lookup d k = Inl e \<Longrightarrow> e = KeyError"
  by (cases "map_of d k") (simp_all add: lookup_def)

lemma record_allocation_error: "record_allocation st m cat ty qf = Inl e \<Longrightarrow> e = KeyError"
  unfolding record_allocation_def
  by (cases "lookup (internship_capacity_used st) (m_internship_id m)") (simp_all add: lookup_error)

lemma phase1_scan_error: "phase1_scan internships c l ms st = Inl e \<Longrightarrow> e = KeyError"
proof (induction ms arbitrary: st)
  case Nil
  then show ?case by simp
next
  case (Cons m ms)
  show ?case
  proof (cases "lookup (quota_filled st) c")
    case (Inl e')
    then show ?thesis using Cons.prems lookup_error [OF Inl] by simp
  next
    case (Inr filled)
    show ?thesis
    proof (cases "record_allocation st m c ''quota'' (AList.update c (filled + 1) (quota_filled st))")
      case (Inl e')
      then show ?thesis
        using Cons.prems Cons.IH [of st] record_allocation_error [OF Inl] Inr
        by (simp split: if_splits)
    next
      case (Inr st1)
      then show ?thesis
        using Cons.prems Cons.IH [of st] Cons.IH [of st1] \<open>lookup (quota_filled st) c = Inr filled\<close>
        by (simp split: if_splits)
    qed
  qed
qed

lemma phase1_error: "phase1 internships slots ms cs st = Inl e \<Longrightarrow> e = KeyError"
proof (induction cs arbitrary: st)
  case Nil
  then show ?case by simp
next
  case (Cons c cs)
  show ?case
  proof (cases "phase1_scan internships c (case map_of slots c of None \<Rightarrow> 0 | Some l \<Rightarrow> l) ms st")
    case (Inl e')
    then show ?thesis using Cons.prems phase1_scan_error [OF Inl] by simp
  next
    case (Inr st1)
    then show ?thesis using Cons.prems Cons.IH [of st1] by simp
  qed
qed

lemma fill_reserved_error: "fill_reserved filled slots cs = Inl e \<Longrightarrow> e = KeyError"
proof (induction cs)
  case Nil
  then show ?case by simp
next
  case (Cons c cs)
  show ?case
  proof (cases "lookup filled c")
    case (Inl e')
    then show ?thesis using Cons.prems lookup_error [OF Inl] by simp
  next
    case (Inr f)
    note f = Inr
    show ?thesis
    proof (cases "lookup slots c")
      case (Inl e')
      then show ?thesis using Cons.prems lookup_error [OF Inl] f by simp
    next
      case (Inr s)
      then show ?thesis using Cons f by (simp split: if_splits)
    qed
  qed
qed

lemma take_general_error: "take_general filled g ty = Inl e \<Longrightarrow> e = KeyError"
  unfolding take_general_def
  by (cases "lookup filled ''general''") (simp_all add: lookup_error split: if_splits)

lemma phase2_decide_error: "phase2_decide filled slots g cat = Inl e \<Longrightarrow> e = KeyError"
proof -
  assume a: "phase2_decide filled slots g cat = Inl e"
  show ?thesis
  proof (cases "fill_reserved filled slots reserved_categories")
    case (Inl e')
    then show ?thesis
      using a fill_reserved_error [OF Inl] take_general_error [of filled g "''general''"]
      unfolding phase2_decide_def by (simp split: if_splits sum.splits option.splits)
  next
    case (Inr r)
    then show ?thesis
      using a take_general_error [of filled g "''general''"] take_general_error [of filled g "''merit''"]
      unfolding phase2_decide_def by (simp split: if_splits sum.splits option.splits)
  qed
qed


lemma phase2_error: "phase2 internships slots g ms st = Inl e \<Longrightarrow> e = KeyError"
proof (induction ms arbitrary: st)
  case Nil
  then show ?case by simp
next
  case (Cons m ms)
  show ?case
  proof (cases "skipped internships st m")
    case True
    then show ?thesis using Cons by simp
  next
    case False
    note ns = False
    show ?thesis
    proof (cases "phase2_decide (quota_filled st) slots g (get_candidate_category m)")
      case (Inl e')
      then show ?thesis using Cons.prems ns phase2_decide_error [OF Inl] by simp
    next
      case (Inr d)
      note d = Inr
      show ?thesis
      proof (cases d)
        case None
        then show ?thesis using Cons ns d by simp
      next
        case (Some p)
        obtain qf ty where p: "p = (qf, ty)" by (cases p)
        show ?thesis
        proof (cases "record_allocation st m (get_candidate_category m) ty qf")
          case (Inl e')
          then show ?thesis
            using Cons.prems ns d Some p record_allocation_error [OF Inl] by simp
        next
          case (Inr st1)
          then show ?thesis
            using Cons.prems ns d Some p Cons.IH [of st1] by simp
        qed
      qed
    qed
  qed
qed

lemma allocate_with_quotas_error:
  assumes "allocate_with_quotas self matches internship_matches quota_slots internships = Inl e"
  shows "e = KeyError"
proof (cases "phase1 internships quota_slots matches reserved_categories (init_state self internships)")
  case (Inl e')
  then show ?thesis using assms phase1_error [OF Inl] by (simp add: allocate_with_quotas_def)
next
  case (Inr st1)
  note p1 = Inr
  show ?thesis
  proof (cases "phase2 internships quota_slots
                  (case map_of quota_slots ''general'' of None \<Rightarrow> 0 | Some g \<Rightarrow> g) matches st1")
    case (Inl e')
    then show ?thesis using assms p1 phase2_error [OF Inl] by (simp add: allocate_with_quotas_def)
  next
    case (Inr st2)
    then show ?thesis using assms p1 by (simp add: allocate_with_quotas_def)
  qed
qed

lemma add_boost_error:
  assumes "\<And>e. acc = Inl e \<Longrightarrow> e = KeyError" and "add_boost self applies key reason acc = Inl e"
  shows "e = KeyError"
proof (cases acc)
  case (Inl e')
  then show ?thesis using assms by (simp add: add_boost_def)
next
  case (Inr p)
  obtain b rs where p: "p = (b, rs)" by (cases p)
  show ?thesis
  proof (cases "lookup (diversity_boost self) key")
    case (Inl e')
    then show ?thesis
      using assms(2) Inr p lookup_error [OF Inl] by (simp add: add_boost_def split: if_splits)
  next
    case (Inr w)
    then show ?thesis
      using assms(2) \<open>acc = Inr p\<close> p by (simp add: add_boost_def split: if_splits)
  qed
qed

lemma boost_match_error: "boost_match self m = Inl e \<Longrightarrow> e = KeyError"
proof -
  assume a: "boost_match self m = Inl e"
  let ?a1 = "add_boost self (m_rural_background m \<or> is_rural_candidate m) ''rural'' ''Rural background''
                  (Inr (0, []))"
  let ?a2 = "add_boost self (is_female_candidate m) ''female'' ''Gender diversity'' ?a1"
  let ?a3 = "add_boost self (is_pwd_candidate m) ''pwd'' ''Person with disability'' ?a2"
  let ?a4 = "add_boost self (is_first_generation_candidate m) ''first_generation'' ''First-generation learner'' ?a3"
  have e1: "x = KeyError" if "?a1 = Inl x" for x
    by (rule add_boost_error [OF _ that]) simp
  have e2: "x = KeyError" if "?a2 = Inl x" for x
    by (rule add_boost_error [OF _ that]) (rule e1)
  have e3: "x = KeyError" if "?a3 = Inl x" for x
    by (rule add_boost_error [OF _ that]) (rule e2)
  have e4: "x = KeyError" if "?a4 = Inl x" for x
    by (rule add_boost_error [OF _ that]) (rule e3)
  show ?thesis
  proof (cases ?a4)
    case (Inl e')
    then show ?thesis using a e4 [OF Inl] by (simp add: boost_match_def Let_def)
  next
    case (Inr p)
    obtain b rs where "p = (b, rs)" by (cases p)
    then show ?thesis using a Inr by (simp add: boost_match_def Let_def)
  qed
qed

lemma boost_all_error: "boost_all self ms = Inl e \<Longrightarrow> e = KeyError"
proof (induction ms)
  case Nil
  then show ?case by simp
next
  case (Cons m ms)
  show ?case
  proof (cases "boost_match self m")
    case (Inl e')
    then show ?thesis using Cons.prems boost_match_error [OF Inl] by simp
  next
    case (Inr b)
    then show ?thesis using Cons by (simp split: sum.splits)
  qed
qed

lemma apply_diversity_boosts_error: "apply_diversity_boosts self ms = Inl e \<Longrightarrow> e = KeyError"
  unfolding apply_diversity_boosts_def
  by (cases "boost_all self ms") (simp_all add: boost_all_error)

lemma calculate_quota_slots_error: "calculate_quota_slots self c = Inl e \<Longrightarrow> e = ZeroDivisionError"
  by (simp add: calculate_quota_slots_def Let_def split: if_splits)

lemma apply_affirmative_action_error:
  assumes "apply_affirmative_action self matches internships = Inl e"
  shows "e \<in> {ZeroDivisionError, KeyError, AttributeError}"
proof (cases "calculate_quota_slots self (sum_list (map capacity_of internships))")
  case (Inl e')
  then show ?thesis
    using assms calculate_quota_slots_error [OF Inl] by (simp add: apply_affirmative_action_def)
next
  case (Inr quota_slots)
  note q = Inr
  show ?thesis
  proof (cases "apply_diversity_boosts self matches")
    case (Inl e')
    then show ?thesis
      using assms q apply_diversity_boosts_error [OF Inl] by (simp add: apply_affirmative_action_def)
  next
    case (Inr boosted_matches)
    note b = Inr
    show ?thesis
    proof (cases "allocate_with_quotas self boosted_matches (group_matches_by_internship matches)
                    quota_slots internships")
      case (Inl e')
      then show ?thesis
        using assms q b allocate_with_quotas_error [OF Inl] by (simp add: apply_affirmative_action_def)
    next
      case (Inr allocations)
      then show ?thesis
        using assms q b by (simp add: apply_affirmative_action_def)
    qed
  qed
qed

section \<open>Inputs the specification wants rejected\<close>

lemma phase1_no_matches: "phase1 internships slots [] cs st = Inr st"
  by (induction cs) simp_all

lemma allocate_with_quotas_no_matches:
  "allocate_with_quotas self [] internship_matches quota_slots internships = Inr \<lparr>
     r_final_allocations = [],
     r_quota_fulfillment = quota_filled (init_state self internships),
     r_summary = \<lparr>
       total_allocated = 0,
       total_capacity = sum_list (map snd (internship_capacity_used (init_state self internships))),
       s_quota_slots = quota_slots,
       capacity_utilization = internship_capacity_used (init_state self internships) \<rparr> \<rparr>"
proof -
  have f: "final_allocations (init_state self internships) = []"
    by (simp add: init_state_def)
  show ?thesis
    unfolding allocate_with_quotas_def by (simp add: phase1_no_matches f)
qed

lemma quota_filled_init_zero:
  "list_all (\<lambda>kv. snd kv = 0) (quota_filled (init_state self internships))"
proof -
  have "snd ` set (quota_filled (init_state self internships)) \<subseteq> {0}"
    using values_fold_const [of "\<lambda>x. x" 0 "map fst (quotas self)" "[]"] by (simp add: init_state_def)
  then show ?thesis unfolding list_all_iff by auto
qed

text \<open>
  Claim C4 as stated: empty input makes \<^verbatim>\<open>apply_affirmative_action\<close> fail with a
  validation error before any computation. With no matches and no internships the service
  plans the quotas (one slot per category), boosts nothing, and the allocation returns an empty
  result; the exception the call ends with is the \<^verbatim>\<open>AttributeError\<close> of the
  reporting step, not a validation error.
\<close>

theorem empty_input_is_not_rejected:
  "calculate_quota_slots init_service (sum_list (map capacity_of [])) = Inr sample_slots \<and>
   apply_diversity_boosts init_service [] = Inr [] \<and>
   allocate_with_quotas init_service [] (group_matches_by_internship []) sample_slots [] =
     Inr (empty_result sample_slots []) \<and>
   apply_affirmative_action init_service [] [] = Inl AttributeError \<and>
   apply_affirmative_action init_service [] [] \<noteq> Inl ValueError"
proof -
  have a: "calculate_quota_slots init_service (sum_list (map capacity_of [])) = Inr sample_slots"
    by code_simp
  have b: "apply_diversity_boosts init_service [] = Inr []"
    by code_simp
  have c: "allocate_with_quotas init_service [] (group_matches_by_internship []) sample_slots [] =
     Inr (empty_result sample_slots [])"
    by code_simp
  have d: "apply_affirmative_action init_service [] [] = Inl AttributeError"
    by code_simp
  have e: "apply_affirmative_action init_service [] [] \<noteq> Inl ValueError"
    unfolding d by simp
  show ?thesis using a b c d e by (intro conjI)
qed

text \<open>
  Claim C4, amended. \<^verbatim>\<open>apply_affirmative_action\<close> validates nothing and raises no
  validation error on any input, empty or not. With an empty match list, whatever the
  internships, boosting returns the empty list and \<^verbatim>\<open>_allocate_with_quotas\<close> returns
  normally: no allocation record, \<^verbatim>\<open>total_allocated\<close> 0 and every
  \<^verbatim>\<open>quota_fulfillment\<close> counter 0.
\<close>

theorem empty_matches_allocate_nothing:
  "apply_affirmative_action self matches internships \<noteq> Inl ValueError \<and>
   apply_diversity_boosts self [] = Inr [] \<and>
   (\<exists>r. allocate_with_quotas self [] internship_matches quota_slots internships = Inr r \<and>
        r_final_allocations r = [] \<and>
        total_allocated (r_summary r) = 0 \<and>
        list_all (\<lambda>kv. snd kv = 0) (r_quota_fulfillment r))"
proof -
  have a: "apply_affirmative_action self matches internships \<noteq> Inl ValueError"
  proof
    assume "apply_affirmative_action self matches internships = Inl ValueError"
    then have "ValueError \<in> {ZeroDivisionError, KeyError, AttributeError}"
      by (rule apply_affirmative_action_error)
    then show False by simp
  qed
  have b: "apply_diversity_boosts self [] = Inr []"
    by (simp add: apply_diversity_boosts_def sort_by_score_desc_def)
  let ?r = "\<lparr>
     r_final_allocations = [],
     r_quota_fulfillment = quota_filled (init_state self internships),
     r_summary = \<lparr>
       total_allocated = 0,
       total_capacity = sum_list (map snd (internship_capacity_used (init_state self internships))),
       s_quota_slots = quota_slots,
       capacity_utilization = internship_capacity_used (init_state self internships) \<rparr> \<rparr>"
  have "allocate_with_quotas self [] internship_matches quota_slots internships = Inr ?r \<and>
        r_final_allocations ?r = [] \<and>
        total_allocated (r_summary ?r) = 0 \<and>
        list_all (\<lambda>kv. snd kv = 0) (r_quota_fulfillment ?r)"
    using allocate_with_quotas_no_matches [of self internship_matches quota_slots internships]
      quota_filled_init_zero [of self internships]
    by simp
  then have c: "\<exists>r. allocate_with_quotas self [] internship_matches quota_slots internships = Inr r \<and>
        r_final_allocations r = [] \<and>
        total_allocated (r_summary r) = 0 \<and>
        list_all (\<lambda>kv. snd kv = 0) (r_quota_fulfillment r)"
    by (rule exI)
  show ?thesis using a b c by (intro conjI)
qed

text \<open>
  Claim C9 as stated: an internship with capacity 0 makes the run raise a validation error
  before allocation begins. With one internship of capacity 0 and one match for it, the
  allocation runs and returns: nobody is allocated, and the internship is tracked with a used
  count of 0. The exception \<^verbatim>\<open>apply_affirmative_action\<close> ends with is the
  \<^verbatim>\<open>AttributeError\<close> of the reporting step.
\<close>

theorem zero_capacity_is_not_rejected:
  "map capacity_of no_seats = [0] \<and>
   allocate_with_quotas init_service single_match (group_matches_by_internship single_match)
     sample_slots no_seats = Inr (empty_result sample_slots [(Some ''i1'', 0)]) \<and>
   apply_affirmative_action init_service single_match no_seats = Inl AttributeError \<and>
   apply_affirmative_action init_service single_match no_seats \<noteq> Inl ValueError"
proof -
  have a: "map capacity_of no_seats = [0]"
    by code_simp
  have b: "allocate_with_quotas init_service single_match (group_matches_by_internship single_match)
     sample_slots no_seats = Inr (empty_result sample_slots [(Some ''i1'', 0)])"
    by code_simp
  have c: "apply_affirmative_action init_service single_match no_seats = Inl AttributeError"
    by code_simp
  have d: "apply_affirmative_action init_service single_match no_seats \<noteq> Inl ValueError"
    unfolding c by simp
  show ?thesis using a b c d by (intro conjI)
qed

text \<open>
  Claim C9, amended. No capacity is validated: \<^verbatim>\<open>_allocate_with_quotas\<close> never
  raises a validation error, and an internship whose capacity is 0 (or less) is processed like
  any other. Both phases skip every match for it as "internship full", so when the run returns,
  no allocation record names that internship.
\<close>

theorem zero_capacity_internship_gets_nobody:
  "allocate_with_quotas self matches internship_matches quota_slots internships \<noteq> Inl ValueError \<and>
   (allocate_with_quotas self matches internship_matches quota_slots internships = Inr r \<and>
    distinct (map i_id internships) \<and> i \<in> set internships \<and> capacity_of i \<le> 0 \<longrightarrow>
      count_for (i_id i) (r_final_allocations r) = 0)"
proof -
  have a: "allocate_with_quotas self matches internship_matches quota_slots internships \<noteq> Inl ValueError"
  proof
    assume "allocate_with_quotas self matches internship_matches quota_slots internships = Inl ValueError"
    then have "ValueError = KeyError" by (rule allocate_with_quotas_error)
    then show False by simp
  qed
  have b: "count_for (i_id i) (r_final_allocations r) = 0"
    if r: "allocate_with_quotas self matches internship_matches quota_slots internships = Inr r"
      and d: "distinct (map i_id internships)" and i: "i \<in> set internships" and z: "capacity_of i \<le> 0"
  proof -
    from r obtain st where inv: "alloc_inv internships st"
      and fa: "r_final_allocations r = final_allocations st"
      by (rule allocate_with_quotas_inv)
    have "count_for (i_id i) (final_allocations st) = used_get st (i_id i)"
      using inv by (simp add: alloc_inv_def)
    moreover have "used_get st (i_id i) \<le> max 0 (get_internship_capacity (i_id i) internships)"
      using inv by (simp add: alloc_inv_def)
    moreover have "get_internship_capacity (i_id i) internships = capacity_of i"
      using d i by (rule get_internship_capacity_distinct)
    moreover have "0 \<le> count_for (i_id i) (final_allocations st)"
      by (simp add: count_for_def)
    ultimately show ?thesis using z fa by simp
  qed
  show ?thesis using a b by blast
qed

theorem zero_capacity_internship_gets_nobody_witness:
  "allocate_with_quotas init_service single_match [] sample_slots no_seats =
     Inr (empty_result sample_slots [(Some ''i1'', 0)]) \<and>
   distinct (map i_id no_seats) \<and>
   \<lparr>i_id = Some ''i1'', i_capacity = Some 0\<rparr> \<in> set no_seats \<and>
   capacity_of \<lparr>i_id = Some ''i1'', i_capacity = Some 0\<rparr> \<le> 0 \<and>
   count_for (Some ''i1'') (r_final_allocations (empty_result sample_slots [(Some ''i1'', 0)])) = 0"
proof -
  have r: "allocate_with_quotas init_service single_match [] sample_slots no_seats =
     Inr (empty_result sample_slots [(Some ''i1'', 0)])"
    by code_simp
  have d: "distinct (map i_id no_seats)"
    by (simp add: no_seats_def)
  have i: "\<lparr>i_id = Some ''i1'', i_capacity = Some 0\<rparr> \<in> set no_seats"
    by (simp add: no_seats_def)
  have z: "capacity_of \<lparr>i_id = Some ''i1'', i_capacity = Some 0\<rparr> \<le> 0"
    by (simp add: capacity_of_def)
  note t = zero_capacity_internship_gets_nobody [of init_service single_match "[]" sample_slots no_seats
      "empty_result sample_slots [(Some ''i1'', 0)]" "\<lparr>i_id = Some ''i1'', i_capacity = Some 0\<rparr>"]
  have "count_for (i_id \<lparr>i_id = Some ''i1'', i_capacity = Some 0\<rparr>)
          (r_final_allocations (empty_result sample_slots [(Some ''i1'', 0)])) = 0"
    using t r d i z by blast
  then have c: "count_for (Some ''i1'') (r_final_allocations (empty_result sample_slots [(Some ''i1'', 0)])) = 0"
    by simp
  show ?thesis using r d i z c by (intro conjI)
qed

section \<open>The configured keys stay configured\<close>

lemma dict_update_keeps_keys:
  "map_of d k \<noteq> None \<Longrightarrow> map_of (dict_update d other) k \<noteq> None"
proof (induction other arbitrary: d)
  case Nil
  then show ?case by (simp add: dict_update_def)
next
  case (Cons kv other)
  have "map_of (AList.update (fst kv) (snd kv) d) k \<noteq> None"
    using Cons.prems by (simp add: update_conv' del: not_None_eq)
  then have "map_of (dict_update (AList.update (fst kv) (snd kv) d) other) k \<noteq> None"
    by (rule Cons.IH)
  then show ?case by (simp add: dict_update_def del: not_None_eq)
qed

lemma has_boost_keys_update:
  "has_boost_keys self \<Longrightarrow> has_boost_keys (update_diversity_boosts self new_boosts)"
  unfolding has_boost_keys_def list_all_iff update_diversity_boosts_def
  by (simp add: dict_update_keeps_keys del: not_None_eq)

lemma quota_keys_update_quotas:
  "list_all (\<lambda>c. map_of (quotas self) c \<noteq> None) all_categories \<Longrightarrow>
   list_all (\<lambda>c. map_of (quotas (snd (update_quotas self new_quotas))) c \<noteq> None) all_categories"
  unfolding list_all_iff update_quotas_def update_quotas_with_def Let_def
  by (simp add: dict_update_keeps_keys del: not_None_eq)

lemma map_of_fold_update_keys:
  "map_of (fold (\<lambda>x acc. AList.update (f x) (g x) acc) xs acc0) k \<noteq> None \<longleftrightarrow>
     k \<in> f ` set xs \<or> map_of acc0 k \<noteq> None"
proof (induction xs arbitrary: acc0)
  case Nil
  then show ?case by simp
next
  case (Cons x xs)
  show ?case
    unfolding fold_simps Cons.IH by (auto simp: update_conv' simp del: not_None_eq)
qed

lemma first_pass_slots_keys:
  "map_of (first_pass_slots qs c) k = None \<longleftrightarrow> map_of qs k = None"
  using map_of_fold_update_keys [of fst "\<lambda>kv. max 1 (py_int (of_int c * snd kv))" qs "[]" k]
  unfolding first_pass_slots_def by (simp add: map_of_eq_None_iff del: not_None_eq)

lemma reduce_slots_keys:
  "map_of (reduce_slots slots r) k = None \<longleftrightarrow> map_of slots k = None"
  unfolding reduce_slots_def by (induction slots) auto

lemma calculate_quota_slots_keys:
  assumes "calculate_quota_slots self c = Inr quota_slots"
    and "list_all (\<lambda>c. map_of (quotas self) c \<noteq> None) all_categories"
  shows "quota_keys_ok self quota_slots"
proof -
  have k: "map_of quota_slots k = None \<longleftrightarrow> map_of (quotas self) k = None" for k
    using assms(1) unfolding calculate_quota_slots_def Let_def
    by (auto simp: first_pass_slots_keys reduce_slots_keys split: if_splits)
  have "list_all (\<lambda>c. map_of quota_slots c \<noteq> None) reserved_categories"
    unfolding list_all_iff
  proof
    fix c assume "c \<in> set reserved_categories"
    then have "c \<in> set all_categories" using reserved_in_all by (rule rev_subsetD)
    then have "map_of (quotas self) c \<noteq> None"
      using assms(2) unfolding list_all_iff by (rule bspec [rotated])
    then show "map_of quota_slots c \<noteq> None" unfolding k .
  qed
  with assms(2) show ?thesis unfolding quota_keys_ok_def by (rule conjI)
qed

end
